theory Spec2Isabelle
  imports Main "HOL-Library.Multiset"
begin

section \<open>The Go library functions the sync command calls\<close>

text \<open>
  The command is written against the Go standard library on a Unix system: the path
  separator is the slash, strings are byte sequences (\<^typ>\<open>string\<close> is a list of
  8-bit characters). The library is not part of the repository; the functions below
  restate the Unix implementations of \<^verbatim>\<open>path.Base\<close>, \<^verbatim>\<open>filepath.Base\<close>,
  \<^verbatim>\<open>filepath.Clean\<close>, \<^verbatim>\<open>filepath.Join\<close>, \<^verbatim>\<open>bytes.TrimSpace\<close> and of the
  verb \<^verbatim>\<open>%4d\<close> of \<^verbatim>\<open>fmt.Sprintf\<close>.
\<close>

definition isPathSeparator :: "char \<Rightarrow> bool" where
  "isPathSeparator c = (c = CHR ''/'')"

text \<open>
  \<^verbatim>\<open>path.Base\<close>: the empty path gives a dot; trailing slashes are stripped; what
  follows the last slash is kept; a path of slashes only gives one slash.
\<close>

definition path_Base :: "string \<Rightarrow> string" where
  "path_Base p =
     (if p = [] then ''.''
      else let p1 = rev (dropWhile (\<lambda>c. c = CHR ''/'') (rev p));
               p2 = rev (takeWhile (\<lambda>c. c \<noteq> CHR ''/'') (rev p1))
           in if p2 = [] then ''/'' else p2)"

text \<open>\<^verbatim>\<open>filepath.Base\<close> is the same function over \<^verbatim>\<open>os.IsPathSeparator\<close>
  (there is no volume name on Unix).\<close>

definition filepath_Base :: "string \<Rightarrow> string" where
  "filepath_Base p =
     (if p = [] then ''.''
      else let p1 = rev (dropWhile isPathSeparator (rev p));
               p2 = rev (takeWhile (\<lambda>c. \<not> isPathSeparator c) (rev p1))
           in if p2 = [] then ''/'' else p2)"

text \<open>
  \<^verbatim>\<open>filepath.Clean\<close> writes into a buffer \<open>out\<close> while it reads the path. On a
  \<^verbatim>\<open>..\<close> element it backtracks: it gives up the last byte of the buffer and then
  further bytes, down to the mark \<open>dotdot\<close>, until the byte given up is a separator.
\<close>

function backtrack :: "string \<Rightarrow> nat \<Rightarrow> string" where
  "backtrack out dotdot =
     (let out1 = butlast out
      in if dotdot < length out1 \<and> \<not> isPathSeparator (last out)
         then backtrack out1 dotdot else out1)"
  by pat_completeness auto
termination
  by (relation "measure (\<lambda>(out, dotdot). length out)") auto

function clean_loop :: "bool \<Rightarrow> string \<Rightarrow> string \<Rightarrow> nat \<Rightarrow> string" where
  "clean_loop rooted [] out dotdot = out"
| "clean_loop rooted (c # cs) out dotdot =
     (if isPathSeparator c then clean_loop rooted cs out dotdot
      else if c = CHR ''.'' \<and> (cs = [] \<or> isPathSeparator (hd cs))
        then clean_loop rooted cs out dotdot
      else if c = CHR ''.'' \<and> hd cs = CHR ''.'' \<and> (tl cs = [] \<or> isPathSeparator (hd (tl cs)))
        then (if dotdot < length out
                then clean_loop rooted (tl cs) (backtrack out dotdot) dotdot
              else if \<not> rooted
                then (let out1 = (if 0 < length out then out @ ''/'' else out) @ ''..''
                      in clean_loop rooted (tl cs) out1 (length out1))
              else clean_loop rooted (tl cs) out dotdot)
      else (let out1 = (if rooted \<and> length out \<noteq> 1 \<or> \<not> rooted \<and> length out \<noteq> 0
                        then out @ ''/'' else out)
            in clean_loop rooted (dropWhile (\<lambda>x. \<not> isPathSeparator x) cs)
                 (out1 @ c # takeWhile (\<lambda>x. \<not> isPathSeparator x) cs) dotdot))"
  by pat_completeness auto
termination
  by (relation "measure (\<lambda>(rooted, p, out, dotdot). length p)")
     (auto simp: less_Suc_eq_le length_dropWhile_le intro: le_trans [OF _ le_SucI])

definition filepath_Clean :: "string \<Rightarrow> string" where
  "filepath_Clean p =
     (if p = [] then ''.''
      else let rooted = isPathSeparator (hd p);
               out = (if rooted then clean_loop rooted (tl p) ''/'' 1
                      else clean_loop rooted p [] 0)
           in if out = [] then ''.'' else out)"

fun strings_Join :: "string list \<Rightarrow> string \<Rightarrow> string" where
  "strings_Join [] sep = []"
| "strings_Join [e] sep = e"
| "strings_Join (e # es) sep = e @ sep @ strings_Join es sep"

text \<open>\<^verbatim>\<open>filepath.Join\<close> skips the leading empty elements, joins the rest with
  slashes and cleans the result; with no non-empty element the result is empty.\<close>

definition filepath_Join :: "string list \<Rightarrow> string" where
  "filepath_Join elem =
     (case dropWhile (\<lambda>e. e = []) elem of
        [] \<Rightarrow> []
      | es \<Rightarrow> filepath_Clean (strings_Join es ''/''))"

text \<open>
  \<^verbatim>\<open>bytes.TrimSpace\<close> has a fast path for ASCII: it skips the six ASCII white-space
  bytes at both ends. When the first byte that is not ASCII white space, from either
  end, is not ASCII at all (\<open>\<ge> 0x80\<close>), it hands what is left to the Unicode-aware
  \<^verbatim>\<open>TrimFunc(s, unicode.IsSpace)\<close>. That slow path decodes UTF-8 and is taken as a
  parameter \<open>slow\<close>.
\<close>

definition asciiSpace :: "char \<Rightarrow> bool" where
  "asciiSpace c = (c \<in> set [CHR 0x09, CHR 0x0A, CHR 0x0B, CHR 0x0C, CHR 0x0D, CHR '' ''])"

definition RuneSelf :: nat where
  "RuneSelf = 128"

definition bytes_TrimSpace :: "(string \<Rightarrow> string) \<Rightarrow> string \<Rightarrow> string" where
  "bytes_TrimSpace slow s =
     (let s1 = dropWhile asciiSpace s
      in if s1 \<noteq> [] \<and> RuneSelf \<le> of_char (hd s1) then slow s1
         else let s2 = rev (dropWhile asciiSpace (rev s1))
              in if s2 \<noteq> [] \<and> RuneSelf \<le> of_char (last s2) then slow s2 else s2)"

text \<open>The decimal digits of a non-negative integer, and \<^verbatim>\<open>%4d\<close>: the digits
  right-justified in a field of width four, padded with spaces.\<close>

function decimal :: "nat \<Rightarrow> string" where
  "decimal n = (if n < 10 then [''0123456789'' ! n]
                else decimal (n div 10) @ [''0123456789'' ! (n mod 10)])"
  by pat_completeness auto
termination
  by (relation "measure id") auto

definition fmt_4d :: "nat \<Rightarrow> string" where
  "fmt_4d n = replicate (4 - length (decimal n)) CHR '' '' @ decimal n"

section \<open>The operating system and the version-control tool\<close>

text \<open>
  The command reads a directory, asks whether paths exist and runs \<^verbatim>\<open>git\<close> as a
  child process. What these calls answer is outside the program; it is given by a
  system \<open>E\<close> over a type of worlds \<open>'w\<close>:
  \<^item> \<open>os_ReadDir E w p\<close> is what \<^verbatim>\<open>os.ReadDir(p)\<close> returns in world \<open>w\<close>: the
    entries and the error (\<open>None\<close> is Go's \<^verbatim>\<open>nil\<close>, \<open>Some t\<close> an error whose text
    is \<open>t\<close>);
  \<^item> \<open>os_Stat E w p\<close> is the error of \<^verbatim>\<open>os.Stat(p)\<close>;
  \<^item> \<open>CombinedOutput E w d argv\<close> runs the command \<open>argv\<close> with working directory
    \<open>d\<close>: it returns the combined output, the error, and the world the command leaves;
  \<^item> \<open>TrimFunc_IsSpace E\<close> is the Unicode slow path of \<^verbatim>\<open>bytes.TrimSpace\<close>.
\<close>

record dirEntry =
  Name :: string
  IsDir :: bool

record 'w sys =
  os_ReadDir :: "'w \<Rightarrow> string \<Rightarrow> dirEntry list \<times> string option"
  os_Stat :: "'w \<Rightarrow> string \<Rightarrow> string option"
  CombinedOutput :: "'w \<Rightarrow> string \<Rightarrow> string list \<Rightarrow> (string \<times> string option) \<times> 'w"
  TrimFunc_IsSpace :: "string \<Rightarrow> string"

section \<open>Synchronising one repository: \<^verbatim>\<open>syncRepo\<close>\<close>

record syncResult =
  dir :: string
  err :: "string option"
  oldRef :: string
  newRef :: string

text \<open>
  \<^verbatim>\<open>syncRepo\<close> of \<^verbatim>\<open>cmd_sync.go\<close>, statement by statement. Every
  \<^verbatim>\<open>if err != nil { res.err = ...; return res }\<close> is the \<open>Some\<close> branch of a case;
  \<^verbatim>\<open>fmt.Errorf\<close> with \<^verbatim>\<open>%w\<close> and \<^verbatim>\<open>%s\<close> pastes the text of the error and the
  bytes of the output into the format.
\<close>

definition syncRepo :: "'w sys \<Rightarrow> 'w \<Rightarrow> string \<Rightarrow> syncResult \<times> 'w" where
  "syncRepo E w0 d =
     (let res = \<lparr>dir = filepath_Base d, err = None, oldRef = [], newRef = []\<rparr>;
          wd1 = filepath_Join [d, ''default''];
          found =
            (case os_Stat E w0 (filepath_Join [wd1, ''.git'']) of
               None \<Rightarrow> Some wd1
             | Some _ \<Rightarrow>
                 (case os_Stat E w0 (filepath_Join [d, ''.git'']) of
                    None \<Rightarrow> Some d
                  | Some _ \<Rightarrow> None))
      in case found of
        None \<Rightarrow> (res\<lparr>err := Some ''no git dir found''\<rparr>, w0)
      | Some wd \<Rightarrow>
      (case CombinedOutput E w0 wd [''git'', ''rev-parse'', ''--short'', ''HEAD''] of
        ((out, Some e), w1) \<Rightarrow> (res\<lparr>err := Some (''get old ref: '' @ e)\<rparr>, w1)
      | ((out, None), w1) \<Rightarrow>
      (let res = res\<lparr>oldRef := bytes_TrimSpace (TrimFunc_IsSpace E) out\<rparr>
       in case CombinedOutput E w1 wd [''git'', ''rev-parse'', ''--abbrev-ref'', ''origin/HEAD''] of
        ((out, Some e), w2) \<Rightarrow>
          (res\<lparr>err := Some (''get remote default branch: '' @ e @ [CHR 0x0A] @ out)\<rparr>, w2)
      | ((out, None), w2) \<Rightarrow>
      (let defaultBranch = path_Base (bytes_TrimSpace (TrimFunc_IsSpace E) out)
       in case CombinedOutput E w2 wd [''git'', ''checkout'', defaultBranch] of
        ((out, Some e), w3) \<Rightarrow>
          (res\<lparr>err := Some (''switch to default branch: '' @ e @ [CHR 0x0A] @ out)\<rparr>, w3)
      | ((out, None), w3) \<Rightarrow>
      (case CombinedOutput E w3 wd
              [''git'', ''fetch'', ''--tags'', ''--prune'', ''--prune-tags'', ''--force'', ''--jobs=10''] of
        ((out, Some e), w4) \<Rightarrow> (res\<lparr>err := Some (''fetch: '' @ e @ [CHR 0x0A] @ out)\<rparr>, w4)
      | ((out, None), w4) \<Rightarrow>
      (case CombinedOutput E w4 wd [''git'', ''merge'', ''--ff-only'', ''--autostash''] of
        ((out, Some e), w5) \<Rightarrow> (res\<lparr>err := Some (''merge: '' @ e @ [CHR 0x0A] @ out)\<rparr>, w5)
      | ((out, None), w5) \<Rightarrow>
      (case CombinedOutput E w5 wd [''git'', ''worktree'', ''prune''] of
        ((out, Some e), w6) \<Rightarrow>
          (res\<lparr>err := Some (''prune worktrees: '' @ e @ [CHR 0x0A] @ out)\<rparr>, w6)
      | ((out, None), w6) \<Rightarrow>
      (case CombinedOutput E w6 wd [''git'', ''rev-parse'', ''--short'', ''HEAD''] of
        ((out, Some e), w7) \<Rightarrow>
          (res\<lparr>err := Some (''get new ref: '' @ e @ [CHR 0x0A] @ out)\<rparr>, w7)
      | ((out, None), w7) \<Rightarrow>
          (res\<lparr>newRef := bytes_TrimSpace (TrimFunc_IsSpace E) out\<rparr>, w7)))))))))"

text \<open>
  \<^verbatim>\<open>main.go\<close> holds the command in two earlier forms, each with a function
  \<^verbatim>\<open>syncRepo\<close> of its own (lines 116 to 187 and lines 475 to 546). The two are the
  same text, and they are \<^verbatim>\<open>syncRepo\<close> of \<^verbatim>\<open>cmd_sync.go\<close> without the block that
  runs \<^verbatim>\<open>git worktree prune\<close>: after the merge they read \<^verbatim>\<open>HEAD\<close> at once.
\<close>

definition syncRepo_main :: "'w sys \<Rightarrow> 'w \<Rightarrow> string \<Rightarrow> syncResult \<times> 'w" where
  "syncRepo_main E w0 d =
     (let res = \<lparr>dir = filepath_Base d, err = None, oldRef = [], newRef = []\<rparr>;
          wd1 = filepath_Join [d, ''default''];
          found =
            (case os_Stat E w0 (filepath_Join [wd1, ''.git'']) of
               None \<Rightarrow> Some wd1
             | Some _ \<Rightarrow>
                 (case os_Stat E w0 (filepath_Join [d, ''.git'']) of
                    None \<Rightarrow> Some d
                  | Some _ \<Rightarrow> None))
      in case found of
        None \<Rightarrow> (res\<lparr>err := Some ''no git dir found''\<rparr>, w0)
      | Some wd \<Rightarrow>
      (case CombinedOutput E w0 wd [''git'', ''rev-parse'', ''--short'', ''HEAD''] of
        ((out, Some e), w1) \<Rightarrow> (res\<lparr>err := Some (''get old ref: '' @ e)\<rparr>, w1)
      | ((out, None), w1) \<Rightarrow>
      (let res = res\<lparr>oldRef := bytes_TrimSpace (TrimFunc_IsSpace E) out\<rparr>
       in case CombinedOutput E w1 wd [''git'', ''rev-parse'', ''--abbrev-ref'', ''origin/HEAD''] of
        ((out, Some e), w2) \<Rightarrow>
          (res\<lparr>err := Some (''get remote default branch: '' @ e @ [CHR 0x0A] @ out)\<rparr>, w2)
      | ((out, None), w2) \<Rightarrow>
      (let defaultBranch = path_Base (bytes_TrimSpace (TrimFunc_IsSpace E) out)
       in case CombinedOutput E w2 wd [''git'', ''checkout'', defaultBranch] of
        ((out, Some e), w3) \<Rightarrow>
          (res\<lparr>err := Some (''switch to default branch: '' @ e @ [CHR 0x0A] @ out)\<rparr>, w3)
      | ((out, None), w3) \<Rightarrow>
      (case CombinedOutput E w3 wd
              [''git'', ''fetch'', ''--tags'', ''--prune'', ''--prune-tags'', ''--force'', ''--jobs=10''] of
        ((out, Some e), w4) \<Rightarrow> (res\<lparr>err := Some (''fetch: '' @ e @ [CHR 0x0A] @ out)\<rparr>, w4)
      | ((out, None), w4) \<Rightarrow>
      (case CombinedOutput E w4 wd [''git'', ''merge'', ''--ff-only'', ''--autostash''] of
        ((out, Some e), w5) \<Rightarrow> (res\<lparr>err := Some (''merge: '' @ e @ [CHR 0x0A] @ out)\<rparr>, w5)
      | ((out, None), w5) \<Rightarrow>
      (case CombinedOutput E w5 wd [''git'', ''rev-parse'', ''--short'', ''HEAD''] of
        ((out, Some e), w6) \<Rightarrow>
          (res\<lparr>err := Some (''get new ref: '' @ e @ [CHR 0x0A] @ out)\<rparr>, w6)
      | ((out, None), w6) \<Rightarrow>
          (res\<lparr>newRef := bytes_TrimSpace (TrimFunc_IsSpace E) out\<rparr>, w6))))))))"

text \<open>
  To see which commands a call of \<^verbatim>\<open>syncRepo\<close> runs, the system is wrapped: the world
  of \<open>traced E\<close> is a world of \<open>E\<close> with the list of the commands run so far, each with
  its working directory, its arguments, its output and its error. The wrapper answers
  as \<open>E\<close> does.
\<close>

datatype invocation =
  Invocation (inv_dir: string) (inv_argv: "string list") (inv_out: string)
    (inv_err: "string option")

definition traced :: "'w sys \<Rightarrow> ('w \<times> invocation list) sys" where
  "traced E =
     \<lparr>os_ReadDir = (\<lambda>(w, tr). os_ReadDir E w),
      os_Stat = (\<lambda>(w, tr). os_Stat E w),
      CombinedOutput = (\<lambda>(w, tr) wd argv.
         case CombinedOutput E w wd argv of
           ((out, e), w') \<Rightarrow> ((out, e), (w', tr @ [Invocation wd argv out e]))),
      TrimFunc_IsSpace = TrimFunc_IsSpace E\<rparr>"

section \<open>The sync command: \<^verbatim>\<open>syncCmd.run\<close> and its goroutines\<close>

text \<open>
  \<^verbatim>\<open>run\<close> lists the base directory, loads the directories into the buffered channel
  \<^verbatim>\<open>dirs\<close> and closes it, then starts \<^verbatim>\<open>c.parallel\<close> workers and one more
  goroutine that waits for them and closes the unbuffered channel \<^verbatim>\<open>resc\<close>, and
  reports what it receives from \<^verbatim>\<open>resc\<close>. The goroutines run concurrently; the model
  is an interleaving of their steps, one goroutine at a time:
  \<^item> a worker is at the head of its loop (\<open>WRecv\<close>), holds a directory it has received
    (\<open>WRun\<close>), waits to send the result of \<^verbatim>\<open>syncRepo\<close> (\<open>WSend\<close>, with the
    directory it came from), or has left the loop and called \<^verbatim>\<open>wg.Done\<close>
    (\<open>WDone\<close>);
  \<^item> the closing goroutine has not been started (\<open>CNone\<close>), is in \<^verbatim>\<open>wg.Wait\<close>
    (\<open>CWait\<close>), is about to close \<^verbatim>\<open>resc\<close> (\<open>CClose\<close>), or is done (\<open>CDone\<close>);
  \<^item> \<^verbatim>\<open>run\<close> itself is in the loop that starts the workers, with loop variable
    \<open>i\<close> (\<open>MSpawn i\<close>), in the loop over \<^verbatim>\<open>resc\<close> (\<open>MRange\<close>), or has returned
    \<^verbatim>\<open>nil\<close> (\<open>MReturned\<close>).
  A call of \<^verbatim>\<open>syncRepo\<close> by a worker is one step on the shared world: the commands
  of two workers are not interleaved below that.
\<close>

record syncCmd =
  parallel :: int

datatype worker = WRecv | WRun string | WSend string syncResult | WDone

datatype closer_pc = CNone | CWait | CClose | CDone

datatype main_pc = MSpawn int | MRange | MReturned

text \<open>
  The state of a run: the world; what is left in \<^verbatim>\<open>dirs\<close>; whether \<^verbatim>\<open>resc\<close> is
  closed; the counter of the wait group; the goroutines; the counter \<open>i\<close> of the report
  loop and what has been written to the standard error stream, one entry for each
  \<^verbatim>\<open>Fprintln\<close>. Two fields are not in the program: \<open>outcomes\<close> records every result
  received from \<^verbatim>\<open>resc\<close>, in the order of arrival, with the directory it was
  computed for; \<open>panicked\<close> records that a goroutine has panicked (a send on a closed
  channel, closing a closed channel, a negative wait-group counter). The integers are
  unbounded: the loop variable stays below \<^verbatim>\<open>c.parallel\<close> and the report counter
  below the number of directory entries, so neither wraps around; the limits the Go
  runtime puts on the number of goroutines and on the wait-group counter are not
  modelled.
\<close>

record 'w pipeline =
  world :: 'w
  dirs :: "string list"
  resc_closed :: bool
  wg :: int
  workers :: "worker list"
  closer :: closer_pc
  mainpc :: main_pc
  report_i :: nat
  stderr :: "string list"
  outcomes :: "(string \<times> syncResult) list"
  panicked :: bool

text \<open>The message of the report loop for the \<open>i\<close>-th result, and what
  \<^verbatim>\<open>Fprintln\<close> writes for it: the message and a newline.\<close>

definition report_msg :: "nat \<Rightarrow> syncResult \<Rightarrow> string" where
  "report_msg i res =
     (fmt_4d i @ '' '' @ dir res @ '': '') @
     (case err res of
        Some e \<Rightarrow> e
      | None \<Rightarrow> if oldRef res = newRef res then newRef res
                else oldRef res @ '' -> '' @ newRef res)"

definition Fprintln :: "string \<Rightarrow> string" where
  "Fprintln msg = msg @ [CHR 0x0A]"

datatype action = Main | Worker nat | Deliver nat | Closer

text \<open>
  One step of one goroutine; \<open>None\<close> when the goroutine cannot move (it is blocked, has
  finished, or does not exist). \<open>Deliver j\<close> is the rendezvous on \<^verbatim>\<open>resc\<close>: worker
  \<open>j\<close> sends, the report loop receives, counts and prints. After a panic nothing moves.
\<close>

definition step :: "'w sys \<Rightarrow> syncCmd \<Rightarrow> action \<Rightarrow> 'w pipeline \<Rightarrow> 'w pipeline option" where
  "step E c a s =
     (if panicked s then None
      else case a of
        Main \<Rightarrow>
          (case mainpc s of
             MSpawn i \<Rightarrow>
               if i < parallel c
               then Some (s\<lparr>wg := wg s + 1, workers := workers s @ [WRecv],
                            mainpc := MSpawn (i + 1)\<rparr>)
               else Some (s\<lparr>closer := CWait, mainpc := MRange\<rparr>)
           | MRange \<Rightarrow> if resc_closed s then Some (s\<lparr>mainpc := MReturned\<rparr>) else None
           | MReturned \<Rightarrow> None)
      | Worker j \<Rightarrow>
          if j < length (workers s) then
            (case workers s ! j of
               WRecv \<Rightarrow>
                 (case dirs s of
                    d # ds \<Rightarrow> Some (s\<lparr>dirs := ds, workers := (workers s)[j := WRun d]\<rparr>)
                  | [] \<Rightarrow>
                      if wg s \<le> 0 then Some (s\<lparr>panicked := True\<rparr>)
                      else Some (s\<lparr>wg := wg s - 1, workers := (workers s)[j := WDone]\<rparr>))
             | WRun d \<Rightarrow>
                 (case syncRepo E (world s) d of
                    (res, w') \<Rightarrow>
                      Some (s\<lparr>world := w', workers := (workers s)[j := WSend d res]\<rparr>))
             | WSend d res \<Rightarrow> if resc_closed s then Some (s\<lparr>panicked := True\<rparr>) else None
             | WDone \<Rightarrow> None)
          else None
      | Deliver j \<Rightarrow>
          if j < length (workers s) \<and> mainpc s = MRange \<and> \<not> resc_closed s then
            (case workers s ! j of
               WSend d res \<Rightarrow>
                 Some (s\<lparr>workers := (workers s)[j := WRecv],
                         report_i := report_i s + 1,
                         stderr := stderr s @ [Fprintln (report_msg (report_i s + 1) res)],
                         outcomes := outcomes s @ [(d, res)]\<rparr>)
             | _ \<Rightarrow> None)
          else None
      | Closer \<Rightarrow>
          (case closer s of
             CWait \<Rightarrow> if wg s = 0 then Some (s\<lparr>closer := CClose\<rparr>) else None
           | CClose \<Rightarrow>
               if resc_closed s then Some (s\<lparr>panicked := True\<rparr>)
               else Some (s\<lparr>resc_closed := True, closer := CDone\<rparr>)
           | _ \<Rightarrow> None))"

text \<open>A schedule is the list of the goroutines that move, in order.\<close>

fun run_schedule ::
  "'w sys \<Rightarrow> syncCmd \<Rightarrow> action list \<Rightarrow> 'w pipeline \<Rightarrow> 'w pipeline option" where
  "run_schedule E c [] s = Some s"
| "run_schedule E c (a # as) s =
     (case step E c a s of None \<Rightarrow> None | Some s' \<Rightarrow> run_schedule E c as s')"

text \<open>The state in which the first worker is about to be started, with the targets
  loaded into \<^verbatim>\<open>dirs\<close>.\<close>

definition pipeline_init :: "'w \<Rightarrow> string list \<Rightarrow> 'w pipeline" where
  "pipeline_init w targets =
     \<lparr>world = w, dirs = targets, resc_closed = False, wg = 0, workers = [],
      closer = CNone, mainpc = MSpawn 0, report_i = 0, stderr = [], outcomes = [],
      panicked = False\<rparr>"

text \<open>The start of \<^verbatim>\<open>run\<close>: the error it returns when the base directory cannot be
  read, or else the targets, the directories among the entries joined to the base
  directory.\<close>

definition run_targets :: "'w sys \<Rightarrow> 'w \<Rightarrow> string + string list" where
  "run_targets E w =
     (let baseDir = ''.''
      in case os_ReadDir E w baseDir of
           (des, Some e) \<Rightarrow> Inl (''sync: read '' @ baseDir @ '': '' @ e)
         | (des, None) \<Rightarrow>
             Inr (map (\<lambda>de. filepath_Join [baseDir, Name de]) (filter IsDir des)))"

text \<open>
  What \<^verbatim>\<open>run\<close> returns under a schedule: \<open>Some (Some e)\<close> is the error with text
  \<open>e\<close>, \<open>Some None\<close> is \<^verbatim>\<open>nil\<close>, and \<open>None\<close> says that the schedule is not a run to
  the end (a goroutine it names cannot move, or \<^verbatim>\<open>run\<close> has not returned after it).
\<close>

definition run :: "'w sys \<Rightarrow> syncCmd \<Rightarrow> 'w \<Rightarrow> action list \<Rightarrow> string option option" where
  "run E c w sch =
     (case run_targets E w of
        Inl e \<Rightarrow> Some (Some e)
      | Inr targets \<Rightarrow>
          (case run_schedule E c sch (pipeline_init w targets) of
             None \<Rightarrow> None
           | Some s \<Rightarrow> if mainpc s = MReturned then Some None else None))"

datatype ExitStatus = ExitSuccess | ExitFailure | ExitUsageError

text \<open>\<^verbatim>\<open>Execute\<close>, with \<open>NArg\<close> the number of arguments left after the flags.\<close>

definition Execute ::
  "'w sys \<Rightarrow> syncCmd \<Rightarrow> nat \<Rightarrow> 'w \<Rightarrow> action list \<Rightarrow> ExitStatus option" where
  "Execute E c NArg w sch =
     (if 0 < NArg then Some ExitUsageError
      else case run E c w sch of
             None \<Rightarrow> None
           | Some (Some e) \<Rightarrow> Some ExitFailure
           | Some None \<Rightarrow> Some ExitSuccess)"

section \<open>Observing a call of \<^verbatim>\<open>syncRepo\<close>\<close>

text \<open>The commands one call of \<^verbatim>\<open>syncRepo\<close> runs, in order, each with what it
  returned.\<close>

definition syncRepo_trace :: "'w sys \<Rightarrow> 'w \<Rightarrow> string \<Rightarrow> invocation list" where
  "syncRepo_trace E w d = snd (snd (syncRepo (traced E) (w, []) d))"

text \<open>The same for the function of \<^verbatim>\<open>main.go\<close>.\<close>

definition syncRepo_main_trace :: "'w sys \<Rightarrow> 'w \<Rightarrow> string \<Rightarrow> invocation list" where
  "syncRepo_main_trace E w d = snd (snd (syncRepo_main (traced E) (w, []) d))"

text \<open>
  The seven commands of \<^verbatim>\<open>syncRepo\<close> in the order of the source, the branch of the
  \<^verbatim>\<open>checkout\<close> being given; and for the \<open>k\<close>-th of them (from 0) the text of the
  error \<^verbatim>\<open>syncRepo\<close> builds when the command fails.
\<close>

definition git_plan :: "string \<Rightarrow> string list list" where
  "git_plan branch =
     [[''git'', ''rev-parse'', ''--short'', ''HEAD''],
      [''git'', ''rev-parse'', ''--abbrev-ref'', ''origin/HEAD''],
      [''git'', ''checkout'', branch],
      [''git'', ''fetch'', ''--tags'', ''--prune'', ''--prune-tags'', ''--force'', ''--jobs=10''],
      [''git'', ''merge'', ''--ff-only'', ''--autostash''],
      [''git'', ''worktree'', ''prune''],
      [''git'', ''rev-parse'', ''--short'', ''HEAD'']]"

definition step_label :: "nat \<Rightarrow> string" where
  "step_label k =
     [''get old ref: '', ''get remote default branch: '', ''switch to default branch: '',
      ''fetch: '', ''merge: '', ''prune worktrees: '', ''get new ref: ''] ! k"

definition step_failure :: "nat \<Rightarrow> invocation \<Rightarrow> string" where
  "step_failure k i =
     step_label k @ the (inv_err i) @ (if k = 0 then [] else [CHR 0x0A] @ inv_out i)"

text \<open>The branch \<^verbatim>\<open>syncRepo\<close> checks out: the last element of the trimmed output of
  the second command.\<close>

definition checkout_branch :: "'w sys \<Rightarrow> invocation list \<Rightarrow> string" where
  "checkout_branch E tr =
     (case tr of
        i0 # i1 # _ \<Rightarrow> path_Base (bytes_TrimSpace (TrimFunc_IsSpace E) (inv_out i1))
      | _ \<Rightarrow> [])"

text \<open>The working directory \<^verbatim>\<open>syncRepo\<close> settles on, if any: the first part of
  its body, for stating what it does next.\<close>

definition resolve_wd :: "'w sys \<Rightarrow> 'w \<Rightarrow> string \<Rightarrow> string option" where
  "resolve_wd E w d =
     (case os_Stat E w (filepath_Join [filepath_Join [d, ''default''], ''.git'']) of
        None \<Rightarrow> Some (filepath_Join [d, ''default''])
      | Some _ \<Rightarrow>
          (case os_Stat E w (filepath_Join [d, ''.git'']) of
             None \<Rightarrow> Some d
           | Some _ \<Rightarrow> None))"

text \<open>The result for a directory without a checkout.\<close>

definition nogit_result :: "string \<Rightarrow> syncResult" where
  "nogit_result d =
     \<lparr>dir = filepath_Base d, err = Some ''no git dir found'', oldRef = [], newRef = []\<rparr>"

text \<open>
  What a trace of commands and a result have in common when \<^verbatim>\<open>syncRepo\<close> has found
  the working directory \<open>wd\<close>: the commands are an initial part of the plan, all in
  \<open>wd\<close>; only the last one can have failed; when it has not, all seven have run; the
  result carries the error of the last command and the trimmed outputs of the first and
  of the seventh.
\<close>

definition trace_ok :: "'w sys \<Rightarrow> string \<Rightarrow> syncResult \<Rightarrow> invocation list \<Rightarrow> bool" where
  "trace_ok E wd r tr \<longleftrightarrow>
     tr \<noteq> [] \<and> length tr \<le> 7 \<and>
     map inv_argv tr = take (length tr) (git_plan (checkout_branch E tr)) \<and>
     (\<forall>i\<in>set tr. inv_dir i = wd) \<and>
     (\<forall>i\<in>set (butlast tr). inv_err i = None) \<and>
     (inv_err (last tr) = None \<longrightarrow> length tr = 7) \<and>
     err r = (case inv_err (last tr) of None \<Rightarrow> None
              | Some e \<Rightarrow> Some (step_failure (length tr - 1) (last tr))) \<and>
     err r \<noteq> Some [] \<and>
     oldRef r = (if inv_err (hd tr) = None
                 then bytes_TrimSpace (TrimFunc_IsSpace E) (inv_out (hd tr)) else []) \<and>
     newRef r = (if inv_err (last tr) = None
                 then bytes_TrimSpace (TrimFunc_IsSpace E) (inv_out (last tr)) else [])"


section \<open>A bound on the length of a run\<close>

text \<open>Each goroutine has a number of steps left at most; a directory still in
  \<^verbatim>\<open>dirs\<close> stands for three steps (it is received, synchronised, delivered).\<close>

fun worker_weight :: "worker \<Rightarrow> nat" where
  "worker_weight WRecv = 1"
| "worker_weight (WRun d) = 3"
| "worker_weight (WSend d res) = 2"
| "worker_weight WDone = 0"

fun closer_weight :: "closer_pc \<Rightarrow> nat" where
  "closer_weight CNone = 2"
| "closer_weight CWait = 2"
| "closer_weight CClose = 1"
| "closer_weight CDone = 0"

fun main_weight :: "syncCmd \<Rightarrow> main_pc \<Rightarrow> nat" where
  "main_weight c (MSpawn i) = 2 * nat (parallel c - i) + 4"
| "main_weight c MRange = 1"
| "main_weight c MReturned = 0"

definition fuel :: "syncCmd \<Rightarrow> 'w pipeline \<Rightarrow> nat" where
  "fuel c s =
     main_weight c (mainpc s) + closer_weight (closer s) + 3 * length (dirs s)
     + sum_list (map worker_weight (workers s)) + (if panicked s then 0 else 1)"

text \<open>The directories the workers hold: received and not yet reported.\<close>

fun worker_dirs :: "worker \<Rightarrow> string list" where
  "worker_dirs WRecv = []"
| "worker_dirs (WRun d) = [d]"
| "worker_dirs (WSend d res) = [d]"
| "worker_dirs WDone = []"

section \<open>What holds in every state of a run\<close>

text \<open>The number of workers that have not left their loop, and the directories the
  workers hold, as a multiset.\<close>

definition alive :: "worker list \<Rightarrow> nat" where
  "alive ws = sum_list (map (\<lambda>x. if x = WDone then 0 else 1) ws)"

definition inflight :: "worker list \<Rightarrow> string multiset" where
  "inflight ws = sum_list (map (\<lambda>x. mset (worker_dirs x)) ws)"

text \<open>
  The bookkeeping of the goroutines: nothing has panicked; the wait group counts the
  workers still in their loop; while workers are being started there are as many as
  the loop variable says and the closing goroutine does not exist; afterwards there
  are \<open>max 0 parallel\<close> workers; \<^verbatim>\<open>resc\<close> is closed exactly when the closing
  goroutine is done, which needs the wait group at zero; \<^verbatim>\<open>run\<close> returns only
  once \<^verbatim>\<open>resc\<close> is closed; a worker leaves its loop only when \<^verbatim>\<open>dirs\<close> is empty.
\<close>

definition pipeline_inv :: "syncCmd \<Rightarrow> 'w pipeline \<Rightarrow> bool" where
  "pipeline_inv c s \<longleftrightarrow>
     \<not> panicked s \<and>
     wg s = int (alive (workers s)) \<and>
     (case mainpc s of
        MSpawn i \<Rightarrow> 0 \<le> i \<and> i \<le> max 0 (parallel c) \<and> i = int (length (workers s)) \<and>
                    closer s = CNone
      | _ \<Rightarrow> closer s \<noteq> CNone \<and> int (length (workers s)) = max 0 (parallel c)) \<and>
     (closer s = CClose \<longrightarrow> wg s = 0) \<and>
     (closer s = CDone \<longrightarrow> wg s = 0) \<and>
     (resc_closed s \<longleftrightarrow> closer s = CDone) \<and>
     (mainpc s = MReturned \<longrightarrow> resc_closed s) \<and>
     (WDone \<in> set (workers s) \<longrightarrow> dirs s = [])"

text \<open>Every target is in exactly one place: still in \<^verbatim>\<open>dirs\<close>, held by a worker,
  or reported.\<close>

definition targets_inv :: "string list \<Rightarrow> 'w pipeline \<Rightarrow> bool" where
  "targets_inv targets s \<longleftrightarrow>
     mset (dirs s) + inflight (workers s) + mset (map fst (outcomes s)) = mset targets"

text \<open>The report loop has counted and printed what it has received.\<close>

definition report_inv :: "'w pipeline \<Rightarrow> bool" where
  "report_inv s \<longleftrightarrow>
     report_i s = length (outcomes s) \<and>
     length (stderr s) = length (outcomes s) \<and>
     (\<forall>k<length (outcomes s).
        stderr s ! k = Fprintln (report_msg (Suc k) (snd (outcomes s ! k))))"

text \<open>
  Where the results come from: for a property \<open>I\<close> of worlds and a relation \<open>Q\<close>
  between directories and results, the world has the property and every result a
  worker is sending or the report loop has received is related to its directory.
\<close>

definition origin_inv ::
  "('w \<Rightarrow> bool) \<Rightarrow> (string \<Rightarrow> syncResult \<Rightarrow> bool) \<Rightarrow> 'w pipeline \<Rightarrow> bool" where
  "origin_inv I Q s \<longleftrightarrow>
     I (world s) \<and>
     (\<forall>d r. WSend d r \<in> set (workers s) \<longrightarrow> Q d r) \<and>
     (\<forall>(d, r)\<in>set (outcomes s). Q d r)"

text \<open>
  Targets that do not interfere. Each target \<open>d\<close> sees a part \<open>view d w\<close> of the
  world \<open>w\<close>. The targets are distinct; what \<^verbatim>\<open>syncRepo\<close> returns for a target
  depends on what the target sees only; and synchronising one target leaves what
  another target sees as it is. A system whose commands answer from a script, whatever
  has run before, is of this kind with a view that shows nothing.
\<close>

definition independent :: "'w sys \<Rightarrow> (string \<Rightarrow> 'w \<Rightarrow> 'v) \<Rightarrow> string list \<Rightarrow> bool" where
  "independent E view targets \<longleftrightarrow>
     distinct targets \<and>
     (\<forall>d\<in>set targets. \<forall>w w'.
        view d w = view d w' \<longrightarrow> fst (syncRepo E w d) = fst (syncRepo E w' d)) \<and>
     (\<forall>d\<in>set targets. \<forall>d'\<in>set targets. \<forall>w.
        d \<noteq> d' \<longrightarrow> view d (snd (syncRepo E w d')) = view d w)"

text \<open>In a run from the world \<open>w0\<close>: the targets not yet synchronised see what they
  saw in \<open>w0\<close>, and the results so far are those of \<^verbatim>\<open>syncRepo\<close> in \<open>w0\<close>.\<close>

definition view_inv :: "'w sys \<Rightarrow> (string \<Rightarrow> 'w \<Rightarrow> 'v) \<Rightarrow> 'w \<Rightarrow> 'w pipeline \<Rightarrow> bool" where
  "view_inv E view w0 s \<longleftrightarrow>
     (\<forall>d\<in>set (dirs s). view d (world s) = view d w0) \<and>
     (\<forall>d. WRun d \<in> set (workers s) \<longrightarrow> view d (world s) = view d w0) \<and>
     (\<forall>d r. WSend d r \<in> set (workers s) \<longrightarrow> r = fst (syncRepo E w0 d)) \<and>
     (\<forall>(d, r)\<in>set (outcomes s). r = fst (syncRepo E w0 d))"

text \<open>The number of newlines in a text: the lines it ends.\<close>

definition count_lines :: "string \<Rightarrow> nat" where
  "count_lines t = length (filter (\<lambda>x. x = CHR 0x0A) t)"

section \<open>Systems to run the command on\<close>

text \<open>
  A scripted system for examples. Its world is the list of the working directories
  that have been fast-forwarded. \<open>rd\<close> is what reading the base directory returns,
  \<open>gitdirs\<close> are the paths that exist, \<open>failing\<close> the commands (working directory and
  arguments) that fail. \<^verbatim>\<open>HEAD\<close> is \<^verbatim>\<open>abc123\<close> before a fast-forward and
  \<^verbatim>\<open>def456\<close> after it; only \<^verbatim>\<open>a/default\<close> has something to fast-forward to.
\<close>

definition mock ::
  "dirEntry list \<times> string option \<Rightarrow> string list \<Rightarrow> (string \<times> string list) list
   \<Rightarrow> string list sys" where
  "mock rd gitdirs failing =
     \<lparr>os_ReadDir = (\<lambda>w p. rd),
      os_Stat = (\<lambda>w p. if p \<in> set gitdirs then None
                        else Some (''stat '' @ p @ '': no such file or directory'')),
      CombinedOutput = (\<lambda>w wd argv.
         if (wd, argv) \<in> set failing
           then ((''fatal: it failed'' @ [CHR 0x0A], Some ''exit status 128''), w)
         else if argv = [''git'', ''rev-parse'', ''--short'', ''HEAD'']
           then (((if wd \<in> set w then ''def456'' else ''abc123'') @ [CHR 0x0A], None), w)
         else if argv = [''git'', ''rev-parse'', ''--abbrev-ref'', ''origin/HEAD'']
           then ((''origin/main'' @ [CHR 0x0A], None), w)
         else if argv = [''git'', ''merge'', ''--ff-only'', ''--autostash'']
           then (([], None), if wd = ''a/default'' then wd # w else w)
         else (([], None), w)),
      TrimFunc_IsSpace = (\<lambda>s. s)\<rparr>"

definition abc_entries :: "dirEntry list" where
  "abc_entries =
     [\<lparr>Name = ''a'', IsDir = True\<rparr>, \<lparr>Name = ''b'', IsDir = True\<rparr>,
      \<lparr>Name = ''c'', IsDir = True\<rparr>, \<lparr>Name = ''notes.txt'', IsDir = False\<rparr>]"

text \<open>Three directories: \<^verbatim>\<open>a\<close> with a checkout in \<^verbatim>\<open>a/default\<close>, \<^verbatim>\<open>b\<close> with
  none, \<^verbatim>\<open>c\<close> with a checkout in place; every command succeeds.\<close>

definition abc :: "string list sys" where
  "abc = mock (abc_entries, None) [''a/default/.git'', ''c/.git''] []"

text \<open>A system in which everything exists and every command succeeds and prints
  nothing.\<close>

definition silent :: "unit sys" where
  "silent =
     \<lparr>os_ReadDir = (\<lambda>w p. ([\<lparr>Name = ''a'', IsDir = True\<rparr>], None)),
      os_Stat = (\<lambda>w p. None),
      CombinedOutput = (\<lambda>w wd argv. (([], None), w)),
      TrimFunc_IsSpace = (\<lambda>s. s)\<rparr>"

text \<open>Variants of the scripted system: the directory \<^verbatim>\<open>c\<close> alone, with the
  fast-forward merge failing, and with the clean-up of the worktrees failing; and a
  base directory that cannot be read.\<close>

definition merge_fails :: "string list sys" where
  "merge_fails =
     mock ([\<lparr>Name = ''c'', IsDir = True\<rparr>], None) [''c/.git'']
       [(''c'', [''git'', ''merge'', ''--ff-only'', ''--autostash''])]"

definition prune_fails :: "string list sys" where
  "prune_fails =
     mock ([\<lparr>Name = ''c'', IsDir = True\<rparr>], None) [''c/.git'']
       [(''c'', [''git'', ''worktree'', ''prune''])]"

definition read_fails :: "string list sys" where
  "read_fails = mock ([], Some ''open .: permission denied'') [] []"

text \<open>A run of the command on the three directories with two workers, to the end:
  the workers and the closing goroutine are started; the first worker takes \<^verbatim>\<open>a\<close>,
  the second \<^verbatim>\<open>b\<close> and then \<^verbatim>\<open>c\<close>; the results arrive in the order \<^verbatim>\<open>b\<close>,
  \<^verbatim>\<open>c\<close>, \<^verbatim>\<open>a\<close>.\<close>

definition two_workers :: syncCmd where
  "two_workers = \<lparr>parallel = 2\<rparr>"

definition abc_schedule :: "action list" where
  "abc_schedule =
     [Main, Main, Main, Worker 0, Worker 1, Worker 1, Deliver 1, Worker 1, Worker 0,
      Worker 1, Deliver 1, Deliver 0, Worker 0, Worker 1, Closer, Closer, Main]"

definition abc_final :: "string list pipeline" where
  "abc_final = the (run_schedule abc two_workers abc_schedule
                      (pipeline_init [] [''a'', ''b'', ''c'']))"

text \<open>A run of the command with one worker on the directory \<^verbatim>\<open>c\<close> when the merge
  fails, to the end.\<close>

definition one_worker :: syncCmd where
  "one_worker = \<lparr>parallel = 1\<rparr>"

definition merge_schedule :: "action list" where
  "merge_schedule =
     [Main, Main, Worker 0, Worker 0, Deliver 0, Worker 0, Closer, Closer, Main]"

definition merge_final :: "string list pipeline" where
  "merge_final = the (run_schedule merge_fails one_worker merge_schedule
                        (pipeline_init [] [''c'']))"

text \<open>A run of the command on the three directories with one worker, to the end: the
  results arrive in the order of the targets.\<close>

definition abc_schedule1 :: "action list" where
  "abc_schedule1 =
     [Main, Main, Worker 0, Worker 0, Deliver 0, Worker 0, Worker 0, Deliver 0,
      Worker 0, Worker 0, Deliver 0, Worker 0, Closer, Closer, Main]"

definition abc_final1 :: "string list pipeline" where
  "abc_final1 = the (run_schedule abc one_worker abc_schedule1
                       (pipeline_init [] [''a'', ''b'', ''c'']))"

text \<open>What a target sees of the world of the scripted system: whether its two
  possible working directories have been fast-forwarded.\<close>

definition abc_view :: "string \<Rightarrow> string list \<Rightarrow> bool \<times> bool" where
  "abc_view d w = (filepath_Join [d, ''default''] \<in> set w, d \<in> set w)"

section \<open>What one call of \<^verbatim>\<open>syncRepo\<close> does\<close>

text \<open>The equations of the two loops that call themselves under a test are unfolded
  by hand only.\<close>

declare decimal.simps [simp del]
declare backtrack.simps [simp del]

lemma traced_simps [simp]:
  "os_Stat (traced E) (w, tr) = os_Stat E w"
  "os_ReadDir (traced E) (w, tr) = os_ReadDir E w"
  "TrimFunc_IsSpace (traced E) = TrimFunc_IsSpace E"
  "CombinedOutput (traced E) (w, tr) wd argv =
     (case CombinedOutput E w wd argv of
        ((out, e), w') \<Rightarrow> ((out, e), (w', tr @ [Invocation wd argv out e])))"
  by (simp_all add: traced_def)

lemma resolve_wd_traced: "resolve_wd (traced E) (w, tr) d = resolve_wd E w d"
  by (simp add: resolve_wd_def split: option.splits)

text \<open>The body of \<^verbatim>\<open>syncRepo\<close> with its first part folded into \<open>resolve_wd\<close>.\<close>

lemma syncRepo_unfold:
  "syncRepo E w0 d =
     (let res = \<lparr>dir = filepath_Base d, err = None, oldRef = [], newRef = []\<rparr>
      in case resolve_wd E w0 d of
        None \<Rightarrow> (res\<lparr>err := Some ''no git dir found''\<rparr>, w0)
      | Some wd \<Rightarrow>
      (case CombinedOutput E w0 wd [''git'', ''rev-parse'', ''--short'', ''HEAD''] of
        ((out, Some e), w1) \<Rightarrow> (res\<lparr>err := Some (''get old ref: '' @ e)\<rparr>, w1)
      | ((out, None), w1) \<Rightarrow>
      (let res = res\<lparr>oldRef := bytes_TrimSpace (TrimFunc_IsSpace E) out\<rparr>
       in case CombinedOutput E w1 wd [''git'', ''rev-parse'', ''--abbrev-ref'', ''origin/HEAD''] of
        ((out, Some e), w2) \<Rightarrow>
          (res\<lparr>err := Some (''get remote default branch: '' @ e @ [CHR 0x0A] @ out)\<rparr>, w2)
      | ((out, None), w2) \<Rightarrow>
      (let defaultBranch = path_Base (bytes_TrimSpace (TrimFunc_IsSpace E) out)
       in case CombinedOutput E w2 wd [''git'', ''checkout'', defaultBranch] of
        ((out, Some e), w3) \<Rightarrow>
          (res\<lparr>err := Some (''switch to default branch: '' @ e @ [CHR 0x0A] @ out)\<rparr>, w3)
      | ((out, None), w3) \<Rightarrow>
      (case CombinedOutput E w3 wd
              [''git'', ''fetch'', ''--tags'', ''--prune'', ''--prune-tags'', ''--force'', ''--jobs=10''] of
        ((out, Some e), w4) \<Rightarrow> (res\<lparr>err := Some (''fetch: '' @ e @ [CHR 0x0A] @ out)\<rparr>, w4)
      | ((out, None), w4) \<Rightarrow>
      (case CombinedOutput E w4 wd [''git'', ''merge'', ''--ff-only'', ''--autostash''] of
        ((out, Some e), w5) \<Rightarrow> (res\<lparr>err := Some (''merge: '' @ e @ [CHR 0x0A] @ out)\<rparr>, w5)
      | ((out, None), w5) \<Rightarrow>
      (case CombinedOutput E w5 wd [''git'', ''worktree'', ''prune''] of
        ((out, Some e), w6) \<Rightarrow>
          (res\<lparr>err := Some (''prune worktrees: '' @ e @ [CHR 0x0A] @ out)\<rparr>, w6)
      | ((out, None), w6) \<Rightarrow>
      (case CombinedOutput E w6 wd [''git'', ''rev-parse'', ''--short'', ''HEAD''] of
        ((out, Some e), w7) \<Rightarrow>
          (res\<lparr>err := Some (''get new ref: '' @ e @ [CHR 0x0A] @ out)\<rparr>, w7)
      | ((out, None), w7) \<Rightarrow>
          (res\<lparr>newRef := bytes_TrimSpace (TrimFunc_IsSpace E) out\<rparr>, w7)))))))))"
  unfolding syncRepo_def resolve_wd_def Let_def ..

lemma syncRepo_nogit:
  assumes "resolve_wd E w d = None"
  shows "syncRepo E w d = (nogit_result d, w)"
  using assms by (simp add: syncRepo_unfold nogit_result_def)

lemma syncRepo_trace_nogit:
  assumes "resolve_wd E w d = None"
  shows "syncRepo_trace E w d = []"
  using assms
  by (simp add: syncRepo_trace_def syncRepo_nogit [of "traced E" "(w, [])"] resolve_wd_traced)

text \<open>
  With a working directory found, the call is followed command by command: at each
  command either it fails, and the call returns, or it succeeds, and the next one runs.
\<close>

lemma syncRepo_git:
  assumes found: "resolve_wd E w d = Some wd"
    and run: "syncRepo (traced E) (w, []) d = (r, (w', tr))"
  shows "trace_ok E wd r tr \<and> dir r = filepath_Base d \<and> syncRepo E w d = (r, w')"
proof -
  note defs = syncRepo_unfold resolve_wd_traced found Let_def trace_ok_def git_plan_def
    checkout_branch_def step_failure_def step_label_def
  obtain o0 e0 w1 where c0:
    "CombinedOutput E w wd [''git'', ''rev-parse'', ''--short'', ''HEAD''] = ((o0, e0), w1)"
    by (metis prod.exhaust)
  show ?thesis
  proof (cases e0)
    case (Some x)
    with run c0 show ?thesis by (clarsimp simp: defs)
  next
    case n0: None
    obtain o1 e1 w2 where c1:
      "CombinedOutput E w1 wd [''git'', ''rev-parse'', ''--abbrev-ref'', ''origin/HEAD'']
         = ((o1, e1), w2)"
      by (metis prod.exhaust)
    show ?thesis
    proof (cases e1)
      case (Some x)
      with run c0 n0 c1 show ?thesis by (clarsimp simp: defs)
    next
      case n1: None
      obtain o2 e2 w3 where c2:
        "CombinedOutput E w2 wd
           [''git'', ''checkout'', path_Base (bytes_TrimSpace (TrimFunc_IsSpace E) o1)]
         = ((o2, e2), w3)"
        by (metis prod.exhaust)
      show ?thesis
      proof (cases e2)
        case (Some x)
        with run c0 n0 c1 n1 c2 show ?thesis by (clarsimp simp: defs)
      next
        case n2: None
        obtain o3 e3 w4 where c3:
          "CombinedOutput E w3 wd
             [''git'', ''fetch'', ''--tags'', ''--prune'', ''--prune-tags'', ''--force'',
              ''--jobs=10'']
           = ((o3, e3), w4)"
          by (metis prod.exhaust)
        show ?thesis
        proof (cases e3)
          case (Some x)
          with run c0 n0 c1 n1 c2 n2 c3 show ?thesis by (clarsimp simp: defs)
        next
          case n3: None
          obtain o4 e4 w5 where c4:
            "CombinedOutput E w4 wd [''git'', ''merge'', ''--ff-only'', ''--autostash'']
             = ((o4, e4), w5)"
            by (metis prod.exhaust)
          show ?thesis
          proof (cases e4)
            case (Some x)
            with run c0 n0 c1 n1 c2 n2 c3 n3 c4 show ?thesis by (clarsimp simp: defs)
          next
            case n4: None
            obtain o5 e5 w6 where c5:
              "CombinedOutput E w5 wd [''git'', ''worktree'', ''prune''] = ((o5, e5), w6)"
              by (metis prod.exhaust)
            show ?thesis
            proof (cases e5)
              case (Some x)
              with run c0 n0 c1 n1 c2 n2 c3 n3 c4 n4 c5 show ?thesis
                by (clarsimp simp: defs)
            next
              case n5: None
              obtain o6 e6 w7 where c6:
                "CombinedOutput E w6 wd [''git'', ''rev-parse'', ''--short'', ''HEAD'']
                 = ((o6, e6), w7)"
                by (metis prod.exhaust)
              show ?thesis
              proof (cases e6)
                case (Some x)
                with run c0 n0 c1 n1 c2 n2 c3 n3 c4 n4 c5 n5 c6 show ?thesis
                  by (clarsimp simp: defs)
              next
                case n6: None
                with run c0 n0 c1 n1 c2 n2 c3 n3 c4 n4 c5 n5 c6 show ?thesis
                  by (clarsimp simp: defs)
              qed
            qed
          qed
        qed
      qed
    qed
  qed
qed

text \<open>The same for the call as it stands, without naming the result of the traced
  call.\<close>

lemma syncRepo_found:
  assumes "resolve_wd E w d = Some wd"
  shows "trace_ok E wd (fst (syncRepo E w d)) (syncRepo_trace E w d)"
    and "dir (fst (syncRepo E w d)) = filepath_Base d"
proof -
  obtain r w' tr where run: "syncRepo (traced E) (w, []) d = (r, (w', tr))"
    by (metis prod.exhaust)
  from syncRepo_git [OF assms run]
  have "trace_ok E wd r tr" "dir r = filepath_Base d" "syncRepo E w d = (r, w')"
    by simp_all
  moreover have "syncRepo_trace E w d = tr"
    by (simp add: syncRepo_trace_def run)
  ultimately show "trace_ok E wd (fst (syncRepo E w d)) (syncRepo_trace E w d)"
    and "dir (fst (syncRepo E w d)) = filepath_Base d"
    by simp_all
qed

lemma syncRepo_dir: "dir (fst (syncRepo E w d)) = filepath_Base d"
proof (cases "resolve_wd E w d")
  case None
  then show ?thesis by (simp add: syncRepo_nogit nogit_result_def)
next
  case (Some wd)
  then show ?thesis by (rule syncRepo_found)
qed

text \<open>A command that has failed is the last one of the trace.\<close>

lemma failed_is_last:
  assumes ok: "trace_ok E wd r tr" and k: "k < length tr" and f: "inv_err (tr ! k) \<noteq> None"
  shows "Suc k = length tr"
proof (rule ccontr)
  assume "Suc k \<noteq> length tr"
  with k have "k < length (butlast tr)" by simp
  then have "butlast tr ! k \<in> set (butlast tr)" by (rule nth_mem)
  moreover have "butlast tr ! k = tr ! k"
    using \<open>k < length (butlast tr)\<close> by (rule nth_butlast)
  ultimately have "inv_err (tr ! k) = None"
    using ok by (simp add: trace_ok_def)
  with f show False by simp
qed

lemma trace_argv:
  assumes ok: "trace_ok E wd r tr" and k: "k < length tr"
  shows "inv_argv (tr ! k) = git_plan (checkout_branch E tr) ! k"
proof -
  have "inv_argv (tr ! k) = map inv_argv tr ! k"
    using k by simp
  also have "\<dots> = take (length tr) (git_plan (checkout_branch E tr)) ! k"
    using ok by (simp add: trace_ok_def)
  also have "\<dots> = git_plan (checkout_branch E tr) ! k"
    using k by simp
  finally show ?thesis .
qed

lemma failed_result:
  assumes ok: "trace_ok E wd r tr" and k: "k < length tr" and f: "inv_err (tr ! k) \<noteq> None"
  shows "err r = Some (step_failure k (tr ! k))" and "newRef r = []"
proof -
  have l: "Suc k = length tr" using assms by (rule failed_is_last)
  then have "tr \<noteq> []" by auto
  moreover have lk: "length tr - 1 = k" using l by simp
  ultimately have "last tr = tr ! k"
    by (simp add: last_conv_nth)
  note this lk
  then show "err r = Some (step_failure k (tr ! k))" and "newRef r = []"
    using ok f by (auto simp: trace_ok_def)
qed

lemma resolve_wd_None:
  "resolve_wd E w d = None \<longleftrightarrow>
     os_Stat E w (filepath_Join [filepath_Join [d, ''default''], ''.git'']) \<noteq> None \<and>
     os_Stat E w (filepath_Join [d, ''.git'']) \<noteq> None"
  by (simp add: resolve_wd_def split: option.splits)

section \<open>The result of \<^verbatim>\<open>syncRepo\<close>: success or failure\<close>

text \<open>
  C2, as the code has it. Every result of \<^verbatim>\<open>syncRepo\<close> is of exactly one of two
  kinds. Either it carries no error: then all seven commands have run, the first and the
  last of them are the two readings of \<^verbatim>\<open>HEAD\<close>, and \<open>oldRef\<close> and \<open>newRef\<close> are
  their outputs with the white space trimmed at both ends (nothing checks that anything
  is left). Or it carries an error: then the text of the error is not empty and
  \<open>newRef\<close> is empty.
\<close>

theorem syncRepo_result_kinds:
  assumes "tr = syncRepo_trace E w d" and "r = fst (syncRepo E w d)"
  shows "(err r = None \<and> length tr = 7 \<and>
          inv_argv (hd tr) = [''git'', ''rev-parse'', ''--short'', ''HEAD''] \<and>
          inv_argv (last tr) = [''git'', ''rev-parse'', ''--short'', ''HEAD''] \<and>
          oldRef r = bytes_TrimSpace (TrimFunc_IsSpace E) (inv_out (hd tr)) \<and>
          newRef r = bytes_TrimSpace (TrimFunc_IsSpace E) (inv_out (last tr)))
         \<noteq> (err r \<noteq> None \<and> the (err r) \<noteq> [] \<and> newRef r = [])"
proof (cases "resolve_wd E w d")
  case None
  then have "r = nogit_result d"
    using assms by (simp add: syncRepo_nogit)
  then show ?thesis by (simp add: nogit_result_def)
next
  case (Some wd)
  then have ok: "trace_ok E wd r tr"
    using assms by (simp add: syncRepo_found(1))
  show ?thesis
  proof (cases "inv_err (last tr)")
    case None
    with ok have len: "length tr = 7" and e: "err r = None"
      and n: "newRef r = bytes_TrimSpace (TrimFunc_IsSpace E) (inv_out (last tr))"
      by (simp_all add: trace_ok_def)
    have ne: "tr \<noteq> []" using len by auto
    have h: "hd tr = tr ! 0" using ne by (simp add: hd_conv_nth)
    have l: "last tr = tr ! 6" using ne len by (simp add: last_conv_nth)
    have "inv_err (tr ! 0) = None"
      using failed_is_last [OF ok, of 0] len by (cases "inv_err (tr ! 0)") auto
    with ok h have o: "oldRef r = bytes_TrimSpace (TrimFunc_IsSpace E) (inv_out (hd tr))"
      by (simp add: trace_ok_def)
    have "inv_argv (tr ! 0) = [''git'', ''rev-parse'', ''--short'', ''HEAD'']"
      and "inv_argv (tr ! 6) = [''git'', ''rev-parse'', ''--short'', ''HEAD'']"
      using trace_argv [OF ok, of 0] trace_argv [OF ok, of 6] len
      by (simp_all add: git_plan_def)
    with len e n o h l show ?thesis by simp
  next
    case (Some x)
    from ok have ne: "err r \<noteq> Some []"
      unfolding trace_ok_def by blast
    from ok Some have "err r \<noteq> None" and "newRef r = []"
      by (simp_all add: trace_ok_def)
    with ne show ?thesis by auto
  qed
qed

theorem syncRepo_result_kinds_witness:
  "err (fst (syncRepo abc [] ''a'')) = None \<and>
   length (syncRepo_trace abc [] ''a'') = 7 \<and>
   oldRef (fst (syncRepo abc [] ''a'')) = ''abc123'' \<and>
   newRef (fst (syncRepo abc [] ''a'')) = ''def456'' \<and>
   err (fst (syncRepo abc [] ''b'')) = Some ''no git dir found'' \<and>
   newRef (fst (syncRepo abc [] ''b'')) = []"
proof -
  have a: "fst (syncRepo abc [] ''a'')
             = \<lparr>dir = ''a'', err = None, oldRef = ''abc123'', newRef = ''def456''\<rparr>"
    by code_simp
  have b: "fst (syncRepo abc [] ''b'')
             = \<lparr>dir = ''b'', err = Some ''no git dir found'', oldRef = [], newRef = []\<rparr>"
    by code_simp
  show ?thesis
    using syncRepo_result_kinds [OF refl refl, of abc "[]" "''a''"]
      syncRepo_result_kinds [OF refl refl, of abc "[]" "''b''"]
    by (simp add: a b)
qed

text \<open>
  C2, as the specification has it, fails: when \<^verbatim>\<open>git\<close> exits with status 0 and
  prints nothing, the result carries no error and both revisions are empty.
\<close>

theorem syncRepo_populated_counterexample:
  "fst (syncRepo silent () ''a'') = \<lparr>dir = ''a'', err = None, oldRef = [], newRef = []\<rparr> \<and>
   \<not> ((err (fst (syncRepo silent () ''a'')) = None \<and>
        oldRef (fst (syncRepo silent () ''a'')) \<noteq> [] \<and>
        newRef (fst (syncRepo silent () ''a'')) \<noteq> [])
       \<or> (err (fst (syncRepo silent () ''a'')) \<noteq> None \<and>
           the (err (fst (syncRepo silent () ''a''))) \<noteq> []))"
proof -
  have "fst (syncRepo silent () ''a'') = \<lparr>dir = ''a'', err = None, oldRef = [], newRef = []\<rparr>"
    by code_simp
  then show ?thesis by simp
qed

lemma trace_okD:
  assumes "trace_ok E wd r tr"
  shows "tr \<noteq> []" and "length tr \<le> 7"
    and "map inv_argv tr = take (length tr) (git_plan (checkout_branch E tr))"
    and "\<forall>i\<in>set tr. inv_dir i = wd"
    and "inv_err (last tr) = None \<longrightarrow> length tr = 7"
    and "err r \<noteq> Some []"
  using assms unfolding trace_ok_def by blast+

lemma no_error_all_ran:
  assumes ok: "trace_ok E wd r tr" and e: "err r = None"
  shows "length tr = 7" and "\<forall>i\<in>set tr. inv_err i = None"
proof -
  have l: "inv_err (last tr) = None"
    using ok e by (cases "inv_err (last tr)") (simp_all add: trace_ok_def)
  with ok show "length tr = 7" by (simp add: trace_ok_def)
  show "\<forall>i\<in>set tr. inv_err i = None"
  proof
    fix i assume "i \<in> set tr"
    then obtain k where k: "k < length tr" and i: "i = tr ! k"
      by (auto simp: in_set_conv_nth)
    show "inv_err i = None"
    proof (rule ccontr)
      assume "inv_err i \<noteq> None"
      with ok k i have "err r = Some (step_failure k (tr ! k))"
        using failed_result(1) by blast
      with e show False by simp
    qed
  qed
qed

section \<open>A failing step ends the call\<close>

text \<open>
  C4. The commands \<^verbatim>\<open>syncRepo\<close> runs are an initial part of its seven commands, in
  their order, each at most once. When no checkout is found, no command runs, the world
  is left as it was and the result carries the error \<^verbatim>\<open>no git dir found\<close>. When a
  command fails, it is the last command run, and the result carries the error built
  from the label of that step, the text of the command's error and (but for the first
  command) its output. A result without an error means that all seven commands ran
  and none failed.
\<close>

theorem syncRepo_short_circuit:
  assumes "tr = syncRepo_trace E w d" and "r = fst (syncRepo E w d)"
  shows "length tr \<le> 7 \<and>
         map inv_argv tr = take (length tr) (git_plan (checkout_branch E tr)) \<and>
         (os_Stat E w (filepath_Join [filepath_Join [d, ''default''], ''.git'']) \<noteq> None \<and>
          os_Stat E w (filepath_Join [d, ''.git'']) \<noteq> None \<longrightarrow>
            tr = [] \<and> err r = Some ''no git dir found'' \<and> snd (syncRepo E w d) = w) \<and>
         (\<forall>k<length tr. inv_err (tr ! k) \<noteq> None \<longrightarrow>
            Suc k = length tr \<and> err r = Some (step_failure k (tr ! k))) \<and>
         (err r = None \<longrightarrow> length tr = 7 \<and> (\<forall>i\<in>set tr. inv_err i = None))"
proof (cases "resolve_wd E w d")
  case None
  then have "tr = []" and "r = nogit_result d" and "snd (syncRepo E w d) = w"
    using assms by (simp_all add: syncRepo_trace_nogit syncRepo_nogit)
  then show ?thesis by (simp add: nogit_result_def)
next
  case (Some wd)
  then have ok: "trace_ok E wd r tr"
    using assms by (simp add: syncRepo_found(1))
  have "\<not> (os_Stat E w (filepath_Join [filepath_Join [d, ''default''], ''.git'']) \<noteq> None \<and>
          os_Stat E w (filepath_Join [d, ''.git'']) \<noteq> None)"
    using Some resolve_wd_None [of E w d] by simp
  moreover have "\<forall>k<length tr. inv_err (tr ! k) \<noteq> None \<longrightarrow>
            Suc k = length tr \<and> err r = Some (step_failure k (tr ! k))"
    using failed_is_last [OF ok] failed_result(1) [OF ok] by blast
  moreover have "err r = None \<longrightarrow> length tr = 7 \<and> (\<forall>i\<in>set tr. inv_err i = None)"
    using no_error_all_ran [OF ok] by blast
  ultimately show ?thesis
    using trace_okD(2,3) [OF ok] by blast
qed

theorem syncRepo_short_circuit_witness:
  "length (syncRepo_trace merge_fails [] ''c'') = 5 \<and>
   inv_argv (syncRepo_trace merge_fails [] ''c'' ! 4)
     = [''git'', ''merge'', ''--ff-only'', ''--autostash''] \<and>
   inv_err (syncRepo_trace merge_fails [] ''c'' ! 4) = Some ''exit status 128'' \<and>
   err (fst (syncRepo merge_fails [] ''c''))
     = Some (''merge: exit status 128'' @ [CHR 0x0A] @ ''fatal: it failed'' @ [CHR 0x0A]) \<and>
   os_Stat abc [] ''b/default/.git'' \<noteq> None \<and> os_Stat abc [] ''b/.git'' \<noteq> None \<and>
   syncRepo_trace abc [] ''b'' = [] \<and>
   err (fst (syncRepo abc [] ''b'')) = Some ''no git dir found'' \<and>
   err (fst (syncRepo abc [] ''a'')) = None \<and>
   length (syncRepo_trace abc [] ''a'') = 7"
proof -
  have l: "length (syncRepo_trace merge_fails [] ''c'') = 5"
    by code_simp
  have i: "syncRepo_trace merge_fails [] ''c'' ! 4
             = Invocation ''c'' [''git'', ''merge'', ''--ff-only'', ''--autostash'']
                 (''fatal: it failed'' @ [CHR 0x0A]) (Some ''exit status 128'')"
    by code_simp
  have j: "filepath_Join [filepath_Join [''b'', ''default''], ''.git''] = ''b/default/.git''"
    "filepath_Join [''b'', ''.git''] = ''b/.git''"
    by code_simp+
  have s: "os_Stat abc [] ''b/default/.git'' \<noteq> None" "os_Stat abc [] ''b/.git'' \<noteq> None"
    by code_simp+
  have a: "err (fst (syncRepo abc [] ''a'')) = None"
    by code_simp
  have "\<forall>k<length (syncRepo_trace merge_fails [] ''c'').
          inv_err (syncRepo_trace merge_fails [] ''c'' ! k) \<noteq> None \<longrightarrow>
          err (fst (syncRepo merge_fails [] ''c''))
            = Some (step_failure k (syncRepo_trace merge_fails [] ''c'' ! k))"
    using syncRepo_short_circuit [OF refl refl, of merge_fails "[]" "''c''"] by blast
  then have "4 < length (syncRepo_trace merge_fails [] ''c'') \<longrightarrow>
          inv_err (syncRepo_trace merge_fails [] ''c'' ! 4) \<noteq> None \<longrightarrow>
          err (fst (syncRepo merge_fails [] ''c''))
            = Some (step_failure 4 (syncRepo_trace merge_fails [] ''c'' ! 4))"
    by blast
  then have c: "err (fst (syncRepo merge_fails [] ''c''))
     = Some (''merge: exit status 128'' @ [CHR 0x0A] @ ''fatal: it failed'' @ [CHR 0x0A])"
    by (simp add: l i step_failure_def step_label_def)
  show ?thesis
    using syncRepo_short_circuit [OF refl refl, of abc "[]" "''b''"]
      syncRepo_short_circuit [OF refl refl, of abc "[]" "''a''"]
    by (simp add: l i c j s a)
qed

section \<open>The clean-up of the worktrees\<close>

text \<open>
  In \<^verbatim>\<open>cmd_sync.go\<close> the fifth command of \<^verbatim>\<open>syncRepo\<close> is the fast-forward merge.
  When it has run and succeeded, the sixth command runs: it is
  \<^verbatim>\<open>git worktree prune\<close>, in the same working directory. When that command fails,
  nothing runs after it (the new \<^verbatim>\<open>HEAD\<close> is not read), the result carries the error
  \<^verbatim>\<open>prune worktrees: \<close> followed by the text of the command's error, a newline and
  its output, and \<open>newRef\<close> is empty. The seventh command, which reads the new
  \<^verbatim>\<open>HEAD\<close>, runs only after a clean-up that succeeded.
\<close>

theorem syncRepo_prune:
  assumes "tr = syncRepo_trace E w d" and "r = fst (syncRepo E w d)"
  shows "(5 \<le> length tr \<longrightarrow>
            inv_argv (tr ! 4) = [''git'', ''merge'', ''--ff-only'', ''--autostash'']) \<and>
         (5 \<le> length tr \<and> inv_err (tr ! 4) = None \<longrightarrow>
            6 \<le> length tr \<and> inv_argv (tr ! 5) = [''git'', ''worktree'', ''prune''] \<and>
            inv_dir (tr ! 5) = inv_dir (tr ! 4)) \<and>
         (6 \<le> length tr \<and> inv_err (tr ! 5) \<noteq> None \<longrightarrow>
            length tr = 6 \<and>
            err r = Some (''prune worktrees: '' @ the (inv_err (tr ! 5)) @ [CHR 0x0A]
                          @ inv_out (tr ! 5)) \<and>
            newRef r = []) \<and>
         (length tr = 7 \<longrightarrow>
            inv_argv (tr ! 6) = [''git'', ''rev-parse'', ''--short'', ''HEAD''] \<and>
            inv_argv (tr ! 5) = [''git'', ''worktree'', ''prune''] \<and>
            inv_err (tr ! 5) = None)"
proof (cases "resolve_wd E w d")
  case None
  then have "tr = []"
    using assms by (simp add: syncRepo_trace_nogit)
  then show ?thesis by simp
next
  case (Some wd)
  then have ok: "trace_ok E wd r tr"
    using assms by (simp add: syncRepo_found(1))
  have argv: "\<And>k. k < length tr \<Longrightarrow> inv_argv (tr ! k) = git_plan (checkout_branch E tr) ! k"
    using trace_argv [OF ok] .
  have dirs: "\<And>k. k < length tr \<Longrightarrow> inv_dir (tr ! k) = wd"
    using trace_okD(4) [OF ok] by simp
  have 1: "5 \<le> length tr \<longrightarrow>
            inv_argv (tr ! 4) = [''git'', ''merge'', ''--ff-only'', ''--autostash'']"
    using argv [of 4] by (simp add: git_plan_def)
  have 2: "5 \<le> length tr \<and> inv_err (tr ! 4) = None \<longrightarrow>
            6 \<le> length tr \<and> inv_argv (tr ! 5) = [''git'', ''worktree'', ''prune''] \<and>
            inv_dir (tr ! 5) = inv_dir (tr ! 4)"
  proof
    assume h: "5 \<le> length tr \<and> inv_err (tr ! 4) = None"
    have "length tr \<noteq> 5"
    proof
      assume l: "length tr = 5"
      then have "last tr = tr ! 4"
        using trace_okD(1) [OF ok] by (simp add: last_conv_nth)
      with h trace_okD(5) [OF ok] l show False by simp
    qed
    with h have 6: "6 \<le> length tr" by simp
    then show "6 \<le> length tr \<and> inv_argv (tr ! 5) = [''git'', ''worktree'', ''prune''] \<and>
            inv_dir (tr ! 5) = inv_dir (tr ! 4)"
      using argv [of 5] dirs [of 5] dirs [of 4] by (simp add: git_plan_def)
  qed
  have 3: "6 \<le> length tr \<and> inv_err (tr ! 5) \<noteq> None \<longrightarrow>
            length tr = 6 \<and>
            err r = Some (''prune worktrees: '' @ the (inv_err (tr ! 5)) @ [CHR 0x0A]
                          @ inv_out (tr ! 5)) \<and>
            newRef r = []"
  proof
    assume h: "6 \<le> length tr \<and> inv_err (tr ! 5) \<noteq> None"
    then have k: "5 < length tr" and f: "inv_err (tr ! 5) \<noteq> None" by simp_all
    have "Suc 5 = length tr"
      using ok k f by (rule failed_is_last)
    moreover have "err r = Some (step_failure 5 (tr ! 5))" and "newRef r = []"
      using failed_result [OF ok k f] by simp_all
    ultimately show "length tr = 6 \<and>
            err r = Some (''prune worktrees: '' @ the (inv_err (tr ! 5)) @ [CHR 0x0A]
                          @ inv_out (tr ! 5)) \<and>
            newRef r = []"
      by (simp add: step_failure_def step_label_def)
  qed
  have 4: "length tr = 7 \<longrightarrow>
            inv_argv (tr ! 6) = [''git'', ''rev-parse'', ''--short'', ''HEAD''] \<and>
            inv_argv (tr ! 5) = [''git'', ''worktree'', ''prune''] \<and>
            inv_err (tr ! 5) = None"
  proof
    assume l: "length tr = 7"
    have "inv_err (tr ! 5) = None"
      using failed_is_last [OF ok, of 5] l by (cases "inv_err (tr ! 5)") auto
    then show "inv_argv (tr ! 6) = [''git'', ''rev-parse'', ''--short'', ''HEAD''] \<and>
            inv_argv (tr ! 5) = [''git'', ''worktree'', ''prune''] \<and>
            inv_err (tr ! 5) = None"
      using argv [of 5] argv [of 6] l by (simp add: git_plan_def)
  qed
  from 1 2 3 4 show ?thesis by blast
qed

theorem syncRepo_prune_witness:
  "length (syncRepo_trace prune_fails [] ''c'') = 6 \<and>
   inv_err (syncRepo_trace prune_fails [] ''c'' ! 4) = None \<and>
   inv_argv (syncRepo_trace prune_fails [] ''c'' ! 5) = [''git'', ''worktree'', ''prune''] \<and>
   inv_err (syncRepo_trace prune_fails [] ''c'' ! 5) = Some ''exit status 128'' \<and>
   err (fst (syncRepo prune_fails [] ''c''))
     = Some (''prune worktrees: exit status 128'' @ [CHR 0x0A] @ ''fatal: it failed''
             @ [CHR 0x0A]) \<and>
   newRef (fst (syncRepo prune_fails [] ''c'')) = [] \<and>
   length (syncRepo_trace abc [] ''c'') = 7 \<and>
   inv_err (syncRepo_trace abc [] ''c'' ! 5) = None"
proof -
  have l: "length (syncRepo_trace prune_fails [] ''c'') = 6"
    by code_simp
  have m: "inv_err (syncRepo_trace prune_fails [] ''c'' ! 4) = None"
    by code_simp
  have p: "inv_err (syncRepo_trace prune_fails [] ''c'' ! 5) = Some ''exit status 128''"
    "inv_out (syncRepo_trace prune_fails [] ''c'' ! 5) = ''fatal: it failed'' @ [CHR 0x0A]"
    by code_simp+
  have a: "length (syncRepo_trace abc [] ''c'') = 7"
    by code_simp
  show ?thesis
    using syncRepo_prune [OF refl refl, of prune_fails "[]" "''c''"]
      syncRepo_prune [OF refl refl, of abc "[]" "''c''"]
    by (simp add: l m p a)
qed

text \<open>The function of \<^verbatim>\<open>main.go\<close>, followed in the same way. It runs six commands at
  most, and none of them is \<^verbatim>\<open>git worktree prune\<close>.\<close>

lemma syncRepo_main_unfold:
  "syncRepo_main E w0 d =
     (let res = \<lparr>dir = filepath_Base d, err = None, oldRef = [], newRef = []\<rparr>
      in case resolve_wd E w0 d of
        None \<Rightarrow> (res\<lparr>err := Some ''no git dir found''\<rparr>, w0)
      | Some wd \<Rightarrow>
      (case CombinedOutput E w0 wd [''git'', ''rev-parse'', ''--short'', ''HEAD''] of
        ((out, Some e), w1) \<Rightarrow> (res\<lparr>err := Some (''get old ref: '' @ e)\<rparr>, w1)
      | ((out, None), w1) \<Rightarrow>
      (let res = res\<lparr>oldRef := bytes_TrimSpace (TrimFunc_IsSpace E) out\<rparr>
       in case CombinedOutput E w1 wd [''git'', ''rev-parse'', ''--abbrev-ref'', ''origin/HEAD''] of
        ((out, Some e), w2) \<Rightarrow>
          (res\<lparr>err := Some (''get remote default branch: '' @ e @ [CHR 0x0A] @ out)\<rparr>, w2)
      | ((out, None), w2) \<Rightarrow>
      (let defaultBranch = path_Base (bytes_TrimSpace (TrimFunc_IsSpace E) out)
       in case CombinedOutput E w2 wd [''git'', ''checkout'', defaultBranch] of
        ((out, Some e), w3) \<Rightarrow>
          (res\<lparr>err := Some (''switch to default branch: '' @ e @ [CHR 0x0A] @ out)\<rparr>, w3)
      | ((out, None), w3) \<Rightarrow>
      (case CombinedOutput E w3 wd
              [''git'', ''fetch'', ''--tags'', ''--prune'', ''--prune-tags'', ''--force'', ''--jobs=10''] of
        ((out, Some e), w4) \<Rightarrow> (res\<lparr>err := Some (''fetch: '' @ e @ [CHR 0x0A] @ out)\<rparr>, w4)
      | ((out, None), w4) \<Rightarrow>
      (case CombinedOutput E w4 wd [''git'', ''merge'', ''--ff-only'', ''--autostash''] of
        ((out, Some e), w5) \<Rightarrow> (res\<lparr>err := Some (''merge: '' @ e @ [CHR 0x0A] @ out)\<rparr>, w5)
      | ((out, None), w5) \<Rightarrow>
      (case CombinedOutput E w5 wd [''git'', ''rev-parse'', ''--short'', ''HEAD''] of
        ((out, Some e), w6) \<Rightarrow>
          (res\<lparr>err := Some (''get new ref: '' @ e @ [CHR 0x0A] @ out)\<rparr>, w6)
      | ((out, None), w6) \<Rightarrow>
          (res\<lparr>newRef := bytes_TrimSpace (TrimFunc_IsSpace E) out\<rparr>, w6))))))))"
  unfolding syncRepo_main_def resolve_wd_def Let_def ..

lemma syncRepo_main_commands:
  "length (syncRepo_main_trace E w d) \<le> 6 \<and>
   [''git'', ''worktree'', ''prune''] \<notin> inv_argv ` set (syncRepo_main_trace E w d)"
proof (cases "resolve_wd E w d")
  case None
  then show ?thesis
    by (simp add: syncRepo_main_trace_def syncRepo_main_unfold resolve_wd_traced)
next
  case found: (Some wd)
  note defs = syncRepo_main_trace_def syncRepo_main_unfold resolve_wd_traced found Let_def
  obtain o0 e0 w1 where c0:
    "CombinedOutput E w wd [''git'', ''rev-parse'', ''--short'', ''HEAD''] = ((o0, e0), w1)"
    by (metis prod.exhaust)
  show ?thesis
  proof (cases e0)
    case (Some x)
    with c0 show ?thesis by (simp add: defs)
  next
    case n0: None
    obtain o1 e1 w2 where c1:
      "CombinedOutput E w1 wd [''git'', ''rev-parse'', ''--abbrev-ref'', ''origin/HEAD'']
         = ((o1, e1), w2)"
      by (metis prod.exhaust)
    show ?thesis
    proof (cases e1)
      case (Some x)
      with c0 n0 c1 show ?thesis by (simp add: defs)
    next
      case n1: None
      obtain o2 e2 w3 where c2:
        "CombinedOutput E w2 wd
           [''git'', ''checkout'', path_Base (bytes_TrimSpace (TrimFunc_IsSpace E) o1)]
         = ((o2, e2), w3)"
        by (metis prod.exhaust)
      show ?thesis
      proof (cases e2)
        case (Some x)
        with c0 n0 c1 n1 c2 show ?thesis by (simp add: defs)
      next
        case n2: None
        obtain o3 e3 w4 where c3:
          "CombinedOutput E w3 wd
             [''git'', ''fetch'', ''--tags'', ''--prune'', ''--prune-tags'', ''--force'',
              ''--jobs=10'']
           = ((o3, e3), w4)"
          by (metis prod.exhaust)
        show ?thesis
        proof (cases e3)
          case (Some x)
          with c0 n0 c1 n1 c2 n2 c3 show ?thesis by (simp add: defs)
        next
          case n3: None
          obtain o4 e4 w5 where c4:
            "CombinedOutput E w4 wd [''git'', ''merge'', ''--ff-only'', ''--autostash'']
             = ((o4, e4), w5)"
            by (metis prod.exhaust)
          show ?thesis
          proof (cases e4)
            case (Some x)
            with c0 n0 c1 n1 c2 n2 c3 n3 c4 show ?thesis by (simp add: defs)
          next
            case n4: None
            obtain o5 e5 w6 where c5:
              "CombinedOutput E w5 wd [''git'', ''rev-parse'', ''--short'', ''HEAD'']
               = ((o5, e5), w6)"
              by (metis prod.exhaust)
            with c0 n0 c1 n1 c2 n2 c3 n3 c4 n4 show ?thesis
              by (cases e5) (simp_all add: defs)
          qed
        qed
      qed
    qed
  qed
qed

text \<open>
  C3 holds of \<^verbatim>\<open>syncRepo\<close> of \<^verbatim>\<open>cmd_sync.go\<close> and fails for the functions
  \<^verbatim>\<open>syncRepo\<close> of \<^verbatim>\<open>main.go\<close>, which never run \<^verbatim>\<open>git worktree prune\<close>,
  whatever the system, the world and the directory. In the system where the clean-up of
  the worktrees of \<^verbatim>\<open>c\<close> fails and every other command succeeds, the function of
  \<^verbatim>\<open>main.go\<close> runs six commands, the merge and then the reading of \<^verbatim>\<open>HEAD\<close> being
  the last two, and returns a result without an error; the function of
  \<^verbatim>\<open>cmd_sync.go\<close> returns the error of the clean-up there.
\<close>

theorem syncRepo_main_without_prune:
  "[''git'', ''worktree'', ''prune''] \<notin> inv_argv ` set (syncRepo_main_trace E w d) \<and>
   map inv_argv (syncRepo_main_trace prune_fails [] ''c'') =
     [[''git'', ''rev-parse'', ''--short'', ''HEAD''],
      [''git'', ''rev-parse'', ''--abbrev-ref'', ''origin/HEAD''],
      [''git'', ''checkout'', ''main''],
      [''git'', ''fetch'', ''--tags'', ''--prune'', ''--prune-tags'', ''--force'', ''--jobs=10''],
      [''git'', ''merge'', ''--ff-only'', ''--autostash''],
      [''git'', ''rev-parse'', ''--short'', ''HEAD'']] \<and>
   map inv_err (syncRepo_main_trace prune_fails [] ''c'') = [None, None, None, None, None, None] \<and>
   fst (syncRepo_main prune_fails [] ''c'')
     = \<lparr>dir = ''c'', err = None, oldRef = ''abc123'', newRef = ''abc123''\<rparr> \<and>
   fst (CombinedOutput prune_fails [] ''c'' [''git'', ''worktree'', ''prune''])
     = (''fatal: it failed'' @ [CHR 0x0A], Some ''exit status 128'') \<and>
   fst (syncRepo prune_fails [] ''c'')
     = \<lparr>dir = ''c'',
        err = Some (''prune worktrees: exit status 128'' @ [CHR 0x0A] @ ''fatal: it failed''
                    @ [CHR 0x0A]),
        oldRef = ''abc123'', newRef = []\<rparr>"
proof -
  have 1: "[''git'', ''worktree'', ''prune''] \<notin> inv_argv ` set (syncRepo_main_trace E w d)"
    using syncRepo_main_commands [of E w d] by blast
  have 2: "map inv_argv (syncRepo_main_trace prune_fails [] ''c'') =
     [[''git'', ''rev-parse'', ''--short'', ''HEAD''],
      [''git'', ''rev-parse'', ''--abbrev-ref'', ''origin/HEAD''],
      [''git'', ''checkout'', ''main''],
      [''git'', ''fetch'', ''--tags'', ''--prune'', ''--prune-tags'', ''--force'', ''--jobs=10''],
      [''git'', ''merge'', ''--ff-only'', ''--autostash''],
      [''git'', ''rev-parse'', ''--short'', ''HEAD'']]"
    by code_simp
  have 3: "map inv_err (syncRepo_main_trace prune_fails [] ''c'')
             = [None, None, None, None, None, None]"
    by code_simp
  have 4: "fst (syncRepo_main prune_fails [] ''c'')
     = \<lparr>dir = ''c'', err = None, oldRef = ''abc123'', newRef = ''abc123''\<rparr>"
    by code_simp
  have 5: "fst (CombinedOutput prune_fails [] ''c'' [''git'', ''worktree'', ''prune''])
     = (''fatal: it failed'' @ [CHR 0x0A], Some ''exit status 128'')"
    by code_simp
  have 6: "fst (syncRepo prune_fails [] ''c'')
     = \<lparr>dir = ''c'',
        err = Some (''prune worktrees: exit status 128'' @ [CHR 0x0A] @ ''fatal: it failed''
                    @ [CHR 0x0A]),
        oldRef = ''abc123'', newRef = []\<rparr>"
    by code_simp
  from 1 2 3 4 5 6 show ?thesis by blast
qed

section \<open>The steps of a run\<close>

lemma sum_list_map_update:
  fixes f :: "'a \<Rightarrow> 'b::comm_monoid_add"
  assumes "j < length ws"
  shows "sum_list (map f (ws[j := x])) + f (ws ! j) = sum_list (map f ws) + f x"
  using assms
proof (induction ws arbitrary: j)
  case Nil
  then show ?case by simp
next
  case (Cons a ws)
  show ?case
  proof (cases j)
    case 0
    then show ?thesis by (simp add: ac_simps)
  next
    case (Suc k)
    with Cons.prems have "k < length ws" by simp
    from Cons.IH [OF this] Suc show ?thesis
      by (simp add: add.assoc)
  qed
qed

text \<open>The twelve ways in which a goroutine moves.\<close>

lemma step_cases [consumes 1, case_names spawn start_closer return recv exit_panic exit
    sync send_panic deliver wait close_panic close]:
  assumes "step E c a s = Some s'"
  obtains
    i where "a = Main" "\<not> panicked s" "mainpc s = MSpawn i" "i < parallel c"
      "s' = s\<lparr>wg := wg s + 1, workers := workers s @ [WRecv], mainpc := MSpawn (i + 1)\<rparr>"
  | i where "a = Main" "\<not> panicked s" "mainpc s = MSpawn i" "\<not> i < parallel c"
      "s' = s\<lparr>closer := CWait, mainpc := MRange\<rparr>"
  | "a = Main" "\<not> panicked s" "mainpc s = MRange" "resc_closed s"
      "s' = s\<lparr>mainpc := MReturned\<rparr>"
  | j d ds where "a = Worker j" "\<not> panicked s" "j < length (workers s)"
      "workers s ! j = WRecv" "dirs s = d # ds"
      "s' = s\<lparr>dirs := ds, workers := (workers s)[j := WRun d]\<rparr>"
  | j where "a = Worker j" "\<not> panicked s" "j < length (workers s)"
      "workers s ! j = WRecv" "dirs s = []" "wg s \<le> 0"
      "s' = s\<lparr>panicked := True\<rparr>"
  | j where "a = Worker j" "\<not> panicked s" "j < length (workers s)"
      "workers s ! j = WRecv" "dirs s = []" "0 < wg s"
      "s' = s\<lparr>wg := wg s - 1, workers := (workers s)[j := WDone]\<rparr>"
  | j d where "a = Worker j" "\<not> panicked s" "j < length (workers s)"
      "workers s ! j = WRun d"
      "s' = s\<lparr>world := snd (syncRepo E (world s) d),
               workers := (workers s)[j := WSend d (fst (syncRepo E (world s) d))]\<rparr>"
  | j d res where "a = Worker j" "\<not> panicked s" "j < length (workers s)"
      "workers s ! j = WSend d res" "resc_closed s"
      "s' = s\<lparr>panicked := True\<rparr>"
  | j d res where "a = Deliver j" "\<not> panicked s" "j < length (workers s)"
      "mainpc s = MRange" "\<not> resc_closed s" "workers s ! j = WSend d res"
      "s' = s\<lparr>workers := (workers s)[j := WRecv],
               report_i := report_i s + 1,
               stderr := stderr s @ [Fprintln (report_msg (report_i s + 1) res)],
               outcomes := outcomes s @ [(d, res)]\<rparr>"
  | "a = Closer" "\<not> panicked s" "closer s = CWait" "wg s = 0"
      "s' = s\<lparr>closer := CClose\<rparr>"
  | "a = Closer" "\<not> panicked s" "closer s = CClose" "resc_closed s"
      "s' = s\<lparr>panicked := True\<rparr>"
  | "a = Closer" "\<not> panicked s" "closer s = CClose" "\<not> resc_closed s"
      "s' = s\<lparr>resc_closed := True, closer := CDone\<rparr>"
proof (cases "panicked s")
  case True
  with assms show ?thesis by (simp add: step_def)
next
  case np: False
  show ?thesis
  proof (cases a)
    case Main
    with assms np that(1,2,3) show ?thesis
      by (cases "mainpc s") (auto simp: step_def split: if_splits)
  next
    case (Worker j)
    show ?thesis
    proof (cases "j < length (workers s)")
      case False
      with assms np Worker show ?thesis by (simp add: step_def)
    next
      case lt: True
      show ?thesis
      proof (cases "workers s ! j")
        case WRecv
        with assms np Worker lt that(4,5,6) show ?thesis
          by (cases "dirs s") (auto simp: step_def split: if_splits)
      next
        case (WRun d)
        with assms np Worker lt that(7) [of j d] show ?thesis
          by (auto simp: step_def split: prod.splits)
      next
        case (WSend d res)
        with assms np Worker lt that(8) show ?thesis
          by (auto simp: step_def split: if_splits)
      next
        case WDone
        with assms np Worker lt show ?thesis by (simp add: step_def)
      qed
    qed
  next
    case (Deliver j)
    with assms np that(9) show ?thesis
      by (cases "workers s ! j") (auto simp: step_def split: if_splits)
  next
    case Closer
    with assms np that(10,11,12) show ?thesis
      by (cases "closer s") (auto simp: step_def split: if_splits)
  qed
qed

lemma run_schedule_invariant:
  assumes "P s0"
    and "\<And>a s s'. P s \<Longrightarrow> step E c a s = Some s' \<Longrightarrow> P s'"
    and "run_schedule E c sch s0 = Some s"
  shows "P s"
  using assms(1,3)
proof (induction sch arbitrary: s0)
  case Nil
  then show ?case by simp
next
  case (Cons a sch)
  from Cons.prems(2) obtain s1 where 1: "step E c a s0 = Some s1"
    and 2: "run_schedule E c sch s1 = Some s"
    by (auto split: option.splits)
  from Cons.prems(1) 1 have "P s1" by (rule assms(2))
  then show ?case using 2 by (rule Cons.IH)
qed

lemma run_schedule_append:
  "run_schedule E c (sch1 @ sch2) s =
     (case run_schedule E c sch1 s of None \<Rightarrow> None | Some s1 \<Rightarrow> run_schedule E c sch2 s1)"
  by (induction sch1 arbitrary: s) (auto split: option.splits)

subsection \<open>Every step uses up fuel\<close>

lemma step_fuel:
  assumes "step E c a s = Some s'"
  shows "fuel c s' < fuel c s"
  using assms
proof (cases rule: step_cases)
  case (spawn i)
  then have "nat (parallel c - (i + 1)) < nat (parallel c - i)" by simp
  with spawn show ?thesis by (simp add: fuel_def)
next
  case (start_closer i)
  then show ?thesis by (cases "closer s") (simp_all add: fuel_def)
next
  case return
  then show ?thesis by (simp add: fuel_def)
next
  case (recv j d ds)
  with sum_list_map_update [of j "workers s" worker_weight "WRun d"]
  show ?thesis by (simp add: fuel_def)
next
  case (exit_panic j)
  then show ?thesis by (simp add: fuel_def)
next
  case (exit j)
  with sum_list_map_update [of j "workers s" worker_weight WDone]
  show ?thesis by (simp add: fuel_def)
next
  case (sync j d)
  with sum_list_map_update [of j "workers s" worker_weight
      "WSend d (fst (syncRepo E (world s) d))"]
  show ?thesis by (simp add: fuel_def)
next
  case (send_panic j d res)
  then show ?thesis by (simp add: fuel_def)
next
  case (deliver j d res)
  with sum_list_map_update [of j "workers s" worker_weight WRecv]
  show ?thesis by (simp add: fuel_def)
next
  case wait
  then show ?thesis by (simp add: fuel_def)
next
  case close_panic
  then show ?thesis by (simp add: fuel_def)
next
  case close
  then show ?thesis by (simp add: fuel_def)
qed

lemma run_schedule_fuel:
  assumes "run_schedule E c sch s = Some s'"
  shows "length sch + fuel c s' \<le> fuel c s"
  using assms
proof (induction sch arbitrary: s)
  case Nil
  then show ?case by simp
next
  case (Cons a sch)
  from Cons.prems obtain s1 where 1: "step E c a s = Some s1"
    and 2: "run_schedule E c sch s1 = Some s'"
    by (auto split: option.splits)
  from step_fuel [OF 1] Cons.IH [OF 2] show ?case by simp
qed

subsection \<open>The bookkeeping of the goroutines\<close>

lemma alive_append [simp]: "alive (ws @ [x]) = alive ws + (if x = WDone then 0 else 1)"
  by (simp add: alive_def)

lemma alive_Nil [simp]: "alive [] = 0"
  by (simp add: alive_def)

lemma alive_update:
  assumes "j < length ws"
  shows "alive (ws[j := x]) + (if ws ! j = WDone then 0 else 1)
           = alive ws + (if x = WDone then 0 else 1)"
  using sum_list_map_update [OF assms, of "\<lambda>x. if x = WDone then 0 else (1::nat)" x]
  by (simp add: alive_def)

lemma alive_zero: "alive ws = 0 \<longleftrightarrow> (\<forall>x\<in>set ws. x = WDone)"
  by (induction ws) (auto simp: alive_def)

lemma alive_pos:
  assumes "j < length ws" and "ws ! j \<noteq> WDone"
  shows "0 < alive ws"
proof -
  have "ws ! j \<in> set ws" using assms(1) by simp
  with assms(2) have "\<not> (\<forall>x\<in>set ws. x = WDone)" by blast
  then have "alive ws \<noteq> 0" by (simp only: alive_zero not_False_eq_True)
  then show ?thesis by simp
qed

lemma WDone_update:
  assumes "WDone \<in> set (ws[j := x])" and "x \<noteq> WDone"
  shows "WDone \<in> set ws"
  using assms set_update_subset_insert [of ws j x] by auto

lemma pipeline_inv_init: "pipeline_inv c (pipeline_init w targets)"
  by (simp add: pipeline_inv_def pipeline_init_def)

lemma pipeline_inv_step:
  assumes inv: "pipeline_inv c s" and st: "step E c a s = Some s'"
  shows "pipeline_inv c s'"
  using st
proof (cases rule: step_cases)
  case (spawn i)
  with inv show ?thesis by (auto simp: pipeline_inv_def)
next
  case (start_closer i)
  with inv show ?thesis by (auto simp: pipeline_inv_def)
next
  case return
  with inv show ?thesis by (auto simp: pipeline_inv_def)
next
  case (recv j d ds)
  from inv recv have nd: "WDone \<notin> set (workers s)"
    by (auto simp: pipeline_inv_def)
  then have nd': "WDone \<notin> set ((workers s)[j := WRun d])"
    using WDone_update [of "workers s" j "WRun d"] by auto
  from alive_update [of j "workers s" "WRun d"] recv
  have "alive ((workers s)[j := WRun d]) = alive (workers s)" by simp
  with inv recv nd' show ?thesis
    by (auto simp: pipeline_inv_def split: main_pc.splits)
next
  case (exit_panic j)
  with alive_pos [of j "workers s"] have "0 < alive (workers s)" by simp
  with inv exit_panic show ?thesis by (simp add: pipeline_inv_def)
next
  case (exit j)
  from alive_update [of j "workers s" WDone] exit
  have "alive ((workers s)[j := WDone]) + 1 = alive (workers s)" by simp
  with inv exit show ?thesis
    by (auto simp: pipeline_inv_def split: main_pc.splits)
next
  case (sync j d)
  let ?x = "WSend d (fst (syncRepo E (world s) d))"
  from alive_update [of j "workers s" ?x] sync
  have "alive ((workers s)[j := ?x]) = alive (workers s)" by simp
  moreover have "WDone \<in> set ((workers s)[j := ?x]) \<longrightarrow> WDone \<in> set (workers s)"
    using WDone_update [of "workers s" j ?x] by auto
  ultimately show ?thesis using inv sync
    by (auto simp: pipeline_inv_def split: main_pc.splits)
next
  case (send_panic j d res)
  with alive_pos [of j "workers s"] have "0 < alive (workers s)" by simp
  with inv send_panic show ?thesis by (auto simp: pipeline_inv_def)
next
  case (deliver j d res)
  from alive_update [of j "workers s" WRecv] deliver
  have "alive ((workers s)[j := WRecv]) = alive (workers s)" by simp
  moreover have "WDone \<in> set ((workers s)[j := WRecv]) \<longrightarrow> WDone \<in> set (workers s)"
    using WDone_update [of "workers s" j WRecv] by auto
  ultimately show ?thesis using inv deliver
    by (auto simp: pipeline_inv_def split: main_pc.splits)
next
  case wait
  with inv show ?thesis by (auto simp: pipeline_inv_def split: main_pc.splits)
next
  case close_panic
  with inv show ?thesis by (auto simp: pipeline_inv_def)
next
  case close
  with inv show ?thesis by (auto simp: pipeline_inv_def split: main_pc.splits)
qed

lemma pipeline_inv_run:
  assumes "run_schedule E c sch (pipeline_init w targets) = Some s"
  shows "pipeline_inv c s"
  using pipeline_inv_init pipeline_inv_step assms
  by (rule run_schedule_invariant)

subsection \<open>Where the targets are\<close>

lemma inflight_append [simp]: "inflight (ws @ [x]) = inflight ws + mset (worker_dirs x)"
  by (simp add: inflight_def)

lemma inflight_Nil [simp]: "inflight [] = {#}"
  by (simp add: inflight_def)

lemma inflight_update:
  assumes "j < length ws"
  shows "inflight (ws[j := x]) + mset (worker_dirs (ws ! j))
           = inflight ws + mset (worker_dirs x)"
  using sum_list_map_update [OF assms, of "\<lambda>x. mset (worker_dirs x)" x]
  by (simp add: inflight_def)

lemma inflight_done:
  assumes "\<forall>x\<in>set ws. x = WDone"
  shows "inflight ws = {#}"
  using assms by (induction ws) (auto simp: inflight_def)

lemma targets_inv_init: "targets_inv targets (pipeline_init w targets)"
  by (simp add: targets_inv_def pipeline_init_def)

lemma targets_inv_step:
  assumes inv: "targets_inv targets s" and st: "step E c a s = Some s'"
  shows "targets_inv targets s'"
proof -
  from inv have t: "mset (dirs s) + inflight (workers s) + mset (map fst (outcomes s))
                      = mset targets"
    by (simp add: targets_inv_def)
  have "mset (dirs s') + inflight (workers s') + mset (map fst (outcomes s'))
          = mset (dirs s) + inflight (workers s) + mset (map fst (outcomes s))"
    using st
  proof (cases rule: step_cases)
    case (spawn i)
    then show ?thesis by simp
  next
    case (start_closer i)
    then show ?thesis by simp
  next
    case return
    then show ?thesis by simp
  next
    case (recv j d ds)
    from inflight_update [of j "workers s" "WRun d"] recv
    have "inflight ((workers s)[j := WRun d]) = inflight (workers s) + {#d#}" by simp
    with recv show ?thesis by simp
  next
    case (exit_panic j)
    then show ?thesis by simp
  next
    case (exit j)
    from inflight_update [of j "workers s" WDone] exit
    have "inflight ((workers s)[j := WDone]) = inflight (workers s)" by simp
    with exit show ?thesis by simp
  next
    case (sync j d)
    let ?x = "WSend d (fst (syncRepo E (world s) d))"
    from inflight_update [of j "workers s" ?x] sync
    have "inflight ((workers s)[j := ?x]) = inflight (workers s)" by simp
    with sync show ?thesis by simp
  next
    case (send_panic j d res)
    then show ?thesis by simp
  next
    case (deliver j d res)
    from inflight_update [of j "workers s" WRecv] deliver
    have "inflight (workers s) = inflight ((workers s)[j := WRecv]) + {#d#}" by simp
    with deliver show ?thesis by simp
  next
    case wait
    then show ?thesis by simp
  next
    case close_panic
    then show ?thesis by simp
  next
    case close
    then show ?thesis by simp
  qed
  with t show ?thesis by (simp add: targets_inv_def)
qed

lemma targets_inv_run:
  assumes "run_schedule E c sch (pipeline_init w targets) = Some s"
  shows "targets_inv targets s"
  using targets_inv_init targets_inv_step assms
  by (rule run_schedule_invariant)

subsection \<open>What the report loop has printed\<close>

lemma report_inv_init: "report_inv (pipeline_init w targets)"
  by (simp add: report_inv_def pipeline_init_def)

lemma report_inv_step:
  assumes inv: "report_inv s" and st: "step E c a s = Some s'"
  shows "report_inv s'"
  using st
proof (cases rule: step_cases)
  case (deliver j d res)
  from inv have i: "report_i s = length (outcomes s)"
    and l: "length (stderr s) = length (outcomes s)"
    and p: "\<And>k. k < length (outcomes s) \<Longrightarrow>
              stderr s ! k = Fprintln (report_msg (Suc k) (snd (outcomes s ! k)))"
    by (simp_all add: report_inv_def)
  have "stderr s' ! k = Fprintln (report_msg (Suc k) (snd (outcomes s' ! k)))"
    if "k < length (outcomes s')" for k
  proof (cases "k < length (outcomes s)")
    case True
    with deliver l p [OF True] show ?thesis by (simp add: nth_append)
  next
    case False
    with that deliver have "k = length (outcomes s)" by simp
    with deliver l i show ?thesis by (simp add: nth_append)
  qed
  with deliver i l show ?thesis by (simp add: report_inv_def)
qed (use inv in \<open>simp_all add: report_inv_def\<close>)

lemma report_inv_run:
  assumes "run_schedule E c sch (pipeline_init w targets) = Some s"
  shows "report_inv s"
  using report_inv_init report_inv_step assms
  by (rule run_schedule_invariant)

subsection \<open>Where the results come from\<close>

lemma origin_inv_step:
  assumes sync: "\<And>w d. I w \<Longrightarrow> I (snd (syncRepo E w d)) \<and> Q d (fst (syncRepo E w d))"
    and inv: "origin_inv I Q s" and st: "step E c a s = Some s'"
  shows "origin_inv I Q s'"
proof -
  from inv have w: "I (world s)"
    and snd: "\<And>d r. WSend d r \<in> set (workers s) \<Longrightarrow> Q d r"
    and out: "\<And>d r. (d, r) \<in> set (outcomes s) \<Longrightarrow> Q d r"
    by (auto simp: origin_inv_def)
  have upd: "Q d r"
    if "WSend d r \<in> set ((workers s)[j := x])" and "x = WSend d r \<longrightarrow> Q d r" for d r j x
    using that snd set_update_subset_insert [of "workers s" j x] by auto
  from st show ?thesis
  proof (cases rule: step_cases)
    case (spawn i)
    with w snd out show ?thesis by (auto simp: origin_inv_def)
  next
    case (recv j d ds)
    with w out upd [of _ _ j "WRun d"] show ?thesis by (auto simp: origin_inv_def)
  next
    case (exit j)
    with w out upd [of _ _ j WDone] show ?thesis by (auto simp: origin_inv_def)
  next
    case (sync j d)
    from sync w
    have "I (snd (syncRepo E (world s) d))" and "Q d (fst (syncRepo E (world s) d))"
      using assms(1) by blast+
    with sync out upd [of _ _ j "WSend d (fst (syncRepo E (world s) d))"] show ?thesis
      by (auto simp: origin_inv_def)
  next
    case (deliver j d res)
    then have "WSend d res \<in> set (workers s)"
      by (metis nth_mem)
    then have "Q d res" by (rule snd)
    with deliver w out upd [of _ _ j WRecv] show ?thesis by (auto simp: origin_inv_def)
  qed (use w snd out in \<open>auto simp: origin_inv_def\<close>)
qed

lemma origin_inv_run:
  assumes sync: "\<And>w d. I w \<Longrightarrow> I (snd (syncRepo E w d)) \<and> Q d (fst (syncRepo E w d))"
    and "I w0"
    and run: "run_schedule E c sch (pipeline_init w0 targets) = Some s"
  shows "origin_inv I Q s"
proof -
  have "origin_inv I Q (pipeline_init w0 targets)"
    using \<open>I w0\<close> by (simp add: origin_inv_def pipeline_init_def)
  then show ?thesis
    using origin_inv_step [of I E Q, OF sync] run
    by (rule run_schedule_invariant)
qed

text \<open>Every result carries the last element of the path of its directory.\<close>

lemma outcomes_dir:
  assumes "run_schedule E c sch (pipeline_init w0 targets) = Some s"
  shows "map (\<lambda>(d, r). dir r) (outcomes s) = map (\<lambda>(d, r). filepath_Base d) (outcomes s)"
proof -
  have "origin_inv (\<lambda>w. True) (\<lambda>d r. dir r = filepath_Base d) s"
    using assms by (intro origin_inv_run [of _ E]) (simp_all add: syncRepo_dir)
  then show ?thesis by (auto simp: origin_inv_def)
qed

subsection \<open>Runs come to an end\<close>

text \<open>As long as \<^verbatim>\<open>run\<close> has not returned, some goroutine can move.\<close>

lemma progress:
  assumes inv: "pipeline_inv c s" and nr: "mainpc s \<noteq> MReturned"
  shows "\<exists>a s'. step E c a s = Some s'"
proof -
  from inv have np: "\<not> panicked s" by (simp add: pipeline_inv_def)
  show ?thesis
  proof (cases "mainpc s")
    case (MSpawn i)
    with np have "step E c Main s \<noteq> None" by (simp add: step_def)
    then show ?thesis by blast
  next
    case MReturned
    with nr show ?thesis by simp
  next
    case MRange
    show ?thesis
    proof (cases "resc_closed s")
      case True
      with np MRange have "step E c Main s \<noteq> None" by (simp add: step_def)
      then show ?thesis by blast
    next
      case nc: False
      show ?thesis
      proof (cases "\<forall>x\<in>set (workers s). x = WDone")
        case True
        then have "alive (workers s) = 0" by (simp add: alive_zero)
        with inv have z: "wg s = 0" by (simp add: pipeline_inv_def)
        from inv MRange nc have "closer s = CWait \<or> closer s = CClose"
          by (cases "closer s") (simp_all add: pipeline_inv_def)
        with np z nc have "step E c Closer s \<noteq> None" by (auto simp: step_def)
        then show ?thesis by blast
      next
        case False
        then obtain j where j: "j < length (workers s)" and x: "workers s ! j \<noteq> WDone"
          by (auto simp: in_set_conv_nth)
        show ?thesis
        proof (cases "workers s ! j")
          case WRecv
          with np j have "step E c (Worker j) s \<noteq> None"
            by (simp add: step_def split: list.splits)
          then show ?thesis by blast
        next
          case (WRun d)
          with np j have "step E c (Worker j) s \<noteq> None"
            by (simp add: step_def split: prod.splits)
          then show ?thesis by blast
        next
          case (WSend d res)
          with np j MRange nc have "step E c (Deliver j) s \<noteq> None"
            by (simp add: step_def)
          then show ?thesis by blast
        next
          case WDone
          with x show ?thesis by simp
        qed
      qed
    qed
  qed
qed

text \<open>So every run can be continued until \<^verbatim>\<open>run\<close> returns.\<close>

lemma completion:
  assumes "pipeline_inv c s"
  shows "\<exists>sch s'. run_schedule E c sch s = Some s' \<and> mainpc s' = MReturned"
  using assms
proof (induction "fuel c s" arbitrary: s rule: less_induct)
  case less
  show ?case
  proof (cases "mainpc s = MReturned")
    case True
    then have "run_schedule E c [] s = Some s \<and> mainpc s = MReturned" by simp
    then show ?thesis by blast
  next
    case False
    with less.prems obtain a s1 where 1: "step E c a s = Some s1"
      using progress by blast
    then have "fuel c s1 < fuel c s" by (rule step_fuel)
    moreover have "pipeline_inv c s1"
      using less.prems 1 by (rule pipeline_inv_step)
    ultimately obtain sch s' where "run_schedule E c sch s1 = Some s'"
      and r: "mainpc s' = MReturned"
      using less.hyps by blast
    with 1 have "run_schedule E c (a # sch) s = Some s'" by simp
    with r show ?thesis by blast
  qed
qed

text \<open>When \<^verbatim>\<open>run\<close> has returned, every worker has left its loop; with at least one
  worker, everything has been reported.\<close>

lemma returned_workers:
  assumes inv: "pipeline_inv c s" and "resc_closed s"
  shows "\<forall>x\<in>set (workers s). x = WDone"
proof -
  from assms have "wg s = 0" by (auto simp: pipeline_inv_def)
  moreover from inv have "wg s = int (alive (workers s))" by (auto simp: pipeline_inv_def)
  ultimately have "alive (workers s) = 0" by simp
  then show ?thesis by (simp only: alive_zero)
qed

lemma returned_all_reported:
  assumes inv: "pipeline_inv c s" and t: "targets_inv targets s"
    and r: "mainpc s = MReturned" and p: "1 \<le> parallel c"
  shows "dirs s = []" and "mset (map fst (outcomes s)) = mset targets"
proof -
  from inv r have cl: "resc_closed s" by (auto simp: pipeline_inv_def)
  with inv have d: "\<forall>x\<in>set (workers s). x = WDone" by (rule returned_workers)
  from inv r p have "int (length (workers s)) = parallel c"
    by (auto simp: pipeline_inv_def)
  with p have "workers s \<noteq> []" by auto
  then obtain x where "x \<in> set (workers s)" by (cases "workers s") auto
  with d have "WDone \<in> set (workers s)" by auto
  with inv show e: "dirs s = []" by (auto simp: pipeline_inv_def)
  from d have "inflight (workers s) = {#}" by (rule inflight_done)
  with t e show "mset (map fst (outcomes s)) = mset targets"
    by (simp add: targets_inv_def)
qed

section \<open>The pipeline terminates\<close>

lemma fuel_init:
  "fuel c (pipeline_init w targets) = 2 * nat (parallel c) + 3 * length targets + 7"
  by (simp add: fuel_def pipeline_init_def)

lemma no_targets_no_outcomes:
  assumes "targets_inv [] s"
  shows "outcomes s = []"
  using assms by (simp add: targets_inv_def)

text \<open>
  C9. In a run with at least one worker, from the state in which the targets are
  loaded and whatever the order in which the goroutines move: the number of steps is
  bounded by the number of workers and of targets, and nothing panics; as long as
  \<^verbatim>\<open>run\<close> has not returned some goroutine can move, and the run can be continued
  until \<^verbatim>\<open>run\<close> returns; a worker leaves its loop only when \<^verbatim>\<open>dirs\<close> is drained;
  \<^verbatim>\<open>resc\<close> is closed only when every worker has left its loop; when \<^verbatim>\<open>run\<close> has
  returned, \<^verbatim>\<open>resc\<close> is closed, \<^verbatim>\<open>dirs\<close> is empty and there are as many results
  as targets; with no target there is never a result.
\<close>

theorem pipeline_terminates:
  assumes "1 \<le> parallel c"
    and "run_schedule E c sch (pipeline_init w targets) = Some s"
  shows "length sch \<le> 2 * nat (parallel c) + 3 * length targets + 7 \<and>
         \<not> panicked s \<and>
         (mainpc s \<noteq> MReturned \<longrightarrow> (\<exists>a s'. step E c a s = Some s')) \<and>
         (\<exists>sch' s'. run_schedule E c (sch @ sch') (pipeline_init w targets) = Some s' \<and>
                    mainpc s' = MReturned) \<and>
         (WDone \<in> set (workers s) \<longrightarrow> dirs s = []) \<and>
         (resc_closed s \<longrightarrow> (\<forall>x\<in>set (workers s). x = WDone)) \<and>
         (mainpc s = MReturned \<longrightarrow>
            resc_closed s \<and> dirs s = [] \<and> length (outcomes s) = length targets) \<and>
         (targets = [] \<longrightarrow> outcomes s = [])"
proof -
  have inv: "pipeline_inv c s" using assms(2) by (rule pipeline_inv_run)
  have t: "targets_inv targets s" using assms(2) by (rule targets_inv_run)
  have 1: "length sch \<le> 2 * nat (parallel c) + 3 * length targets + 7"
    using run_schedule_fuel [OF assms(2)] by (simp add: fuel_init)
  have 2: "\<not> panicked s" using inv by (auto simp: pipeline_inv_def)
  have 3: "mainpc s \<noteq> MReturned \<longrightarrow> (\<exists>a s'. step E c a s = Some s')"
    using progress [OF inv] by blast
  obtain sch' s' where "run_schedule E c sch' s = Some s'" and "mainpc s' = MReturned"
    using completion [OF inv] by blast
  then have 4: "\<exists>sch' s'. run_schedule E c (sch @ sch') (pipeline_init w targets) = Some s' \<and>
                    mainpc s' = MReturned"
    using assms(2) by (auto simp: run_schedule_append)
  have 5: "WDone \<in> set (workers s) \<longrightarrow> dirs s = []"
    using inv by (auto simp: pipeline_inv_def)
  have 6: "resc_closed s \<longrightarrow> (\<forall>x\<in>set (workers s). x = WDone)"
    using returned_workers [OF inv] by blast
  have 7: "mainpc s = MReturned \<longrightarrow>
            resc_closed s \<and> dirs s = [] \<and> length (outcomes s) = length targets"
  proof
    assume r: "mainpc s = MReturned"
    from inv r have "resc_closed s" by (auto simp: pipeline_inv_def)
    moreover from returned_all_reported [OF inv t r assms(1)]
    have "dirs s = []" and m: "mset (map fst (outcomes s)) = mset targets" by simp_all
    moreover from m have "length (outcomes s) = length targets"
      by (metis length_map size_mset)
    ultimately show "resc_closed s \<and> dirs s = [] \<and> length (outcomes s) = length targets"
      by simp
  qed
  have 8: "targets = [] \<longrightarrow> outcomes s = []"
    using t no_targets_no_outcomes by blast
  from 1 2 3 4 5 6 7 8 show ?thesis by blast
qed

theorem pipeline_terminates_witness:
  "1 \<le> parallel two_workers \<and>
   run_schedule abc two_workers abc_schedule (pipeline_init [] [''a'', ''b'', ''c''])
     = Some abc_final \<and>
   length abc_schedule \<le> 2 * nat (parallel two_workers) + 3 * length [''a'', ''b'', ''c''] + 7 \<and>
   mainpc abc_final = MReturned \<and> resc_closed abc_final \<and> dirs abc_final = [] \<and>
   workers abc_final = [WDone, WDone] \<and> length (outcomes abc_final) = 3"
proof -
  have p: "1 \<le> parallel two_workers" by (simp add: two_workers_def)
  have "run_schedule abc two_workers abc_schedule (pipeline_init [] [''a'', ''b'', ''c''])
          \<noteq> None"
    by code_simp
  then have r: "run_schedule abc two_workers abc_schedule
                  (pipeline_init [] [''a'', ''b'', ''c'']) = Some abc_final"
    by (auto simp: abc_final_def)
  have m: "mainpc abc_final = MReturned" by code_simp
  have w: "workers abc_final = [WDone, WDone]" by code_simp
  from pipeline_terminates [OF p r] m w p r show ?thesis by simp
qed

section \<open>One outcome for each target\<close>

text \<open>
  C1. When a run with at least one worker has come to its end, the report loop has
  received as many results as there are targets; the directories the results were
  computed for are the targets, each as often as it is a target; and the names the
  results carry are the last path elements of the targets, each as often. The number
  of workers and the order of the steps are arbitrary.
\<close>

theorem pipeline_outcomes:
  assumes "1 \<le> parallel c"
    and "run_schedule E c sch (pipeline_init w targets) = Some s"
    and "mainpc s = MReturned"
  shows "length (outcomes s) = length targets \<and>
         mset (map fst (outcomes s)) = mset targets \<and>
         mset (map (\<lambda>(d, r). dir r) (outcomes s)) = mset (map filepath_Base targets)"
proof -
  have inv: "pipeline_inv c s" using assms(2) by (rule pipeline_inv_run)
  have t: "targets_inv targets s" using assms(2) by (rule targets_inv_run)
  have m: "mset (map fst (outcomes s)) = mset targets"
    using inv t assms(3,1) by (rule returned_all_reported)
  then have l: "length (outcomes s) = length targets"
    by (metis length_map size_mset)
  have "map (\<lambda>(d, r). dir r) (outcomes s) = map filepath_Base (map fst (outcomes s))"
    using outcomes_dir [OF assms(2)] by (simp add: case_prod_unfold comp_def)
  then have "mset (map (\<lambda>(d, r). dir r) (outcomes s))
               = image_mset filepath_Base (mset (map fst (outcomes s)))"
    by (simp only: mset_map)
  with m have "mset (map (\<lambda>(d, r). dir r) (outcomes s)) = mset (map filepath_Base targets)"
    by simp
  with l m show ?thesis by simp
qed

theorem pipeline_outcomes_witness:
  "1 \<le> parallel two_workers \<and>
   run_schedule abc two_workers abc_schedule (pipeline_init [] [''a'', ''b'', ''c''])
     = Some abc_final \<and>
   mainpc abc_final = MReturned \<and>
   map (\<lambda>(d, r). dir r) (outcomes abc_final) = [''b'', ''c'', ''a''] \<and>
   mset (map (\<lambda>(d, r). dir r) (outcomes abc_final))
     = mset (map filepath_Base [''a'', ''b'', ''c''])"
proof -
  have p: "1 \<le> parallel two_workers" by (simp add: two_workers_def)
  have "run_schedule abc two_workers abc_schedule (pipeline_init [] [''a'', ''b'', ''c''])
          \<noteq> None"
    by code_simp
  then have r: "run_schedule abc two_workers abc_schedule
                  (pipeline_init [] [''a'', ''b'', ''c'']) = Some abc_final"
    by (auto simp: abc_final_def)
  have m: "mainpc abc_final = MReturned" by code_simp
  have n: "map (\<lambda>(d, r). dir r) (outcomes abc_final) = [''b'', ''c'', ''a'']" by code_simp
  from pipeline_outcomes [OF p r m] p r m n show ?thesis by simp
qed

section \<open>No workers\<close>

lemma idle_run:
  assumes p: "parallel c \<le> 0"
    and run: "run_schedule E c sch (pipeline_init w targets) = Some s"
  shows "workers s = [] \<and> outcomes s = [] \<and> stderr s = [] \<and> dirs s = targets \<and> world s = w"
proof -
  let ?P = "\<lambda>s. pipeline_inv c s \<and>
                 (workers s = [] \<and> outcomes s = [] \<and> stderr s = [] \<and> dirs s = targets \<and>
                  world s = w)"
  have 0: "?P (pipeline_init w targets)"
    by (simp add: pipeline_inv_init) (simp add: pipeline_init_def)
  have 1: "?P s'" if "?P s" and st: "step E c a s = Some s'" for a s s'
  proof -
    from that have inv: "pipeline_inv c s" and e: "workers s = []"
      and rest: "outcomes s = []" "stderr s = []" "dirs s = targets" "world s = w"
      by simp_all
    have "pipeline_inv c s'" using inv st by (rule pipeline_inv_step)
    moreover from st have "workers s' = [] \<and> outcomes s' = [] \<and> stderr s' = [] \<and>
                            dirs s' = targets \<and> world s' = w"
    proof (cases rule: step_cases)
      case (spawn i)
      with inv have "0 \<le> i" by (auto simp: pipeline_inv_def)
      with spawn p show ?thesis by simp
    qed (use e rest in simp_all)
    ultimately show ?thesis by simp
  qed
  from run_schedule_invariant [of ?P, OF 0 1 run] show ?thesis by simp
qed

text \<open>
  C10. With \<^verbatim>\<open>parallel\<close> zero or negative, \<^verbatim>\<open>run\<close> starts the closing goroutine at
  once; that goroutine finds the wait group at zero and closes \<^verbatim>\<open>resc\<close>; the report
  loop ends and \<^verbatim>\<open>run\<close> returns \<^verbatim>\<open>nil\<close>. In every state of every run there is no
  worker, no result, nothing printed, the targets are all still in \<^verbatim>\<open>dirs\<close>, the
  world is as it was and nothing has panicked; a run has seven steps at most. When the
  base directory can be read, the command returns \<^verbatim>\<open>nil\<close> and, without arguments
  left over, exits with success.
\<close>

theorem no_workers:
  assumes "parallel c \<le> 0"
  shows "run_schedule E c [Main, Closer, Closer, Main] (pipeline_init w targets)
           = Some ((pipeline_init w targets)
                     \<lparr>resc_closed := True, closer := CDone, mainpc := MReturned\<rparr>) \<and>
         (\<forall>sch s. run_schedule E c sch (pipeline_init w targets) = Some s \<longrightarrow>
            workers s = [] \<and> outcomes s = [] \<and> stderr s = [] \<and> dirs s = targets \<and>
            world s = w \<and> \<not> panicked s \<and> length sch \<le> 7) \<and>
         (snd (os_ReadDir E w ''.'') = None \<longrightarrow>
            run E c w [Main, Closer, Closer, Main] = Some None \<and>
            Execute E c 0 w [Main, Closer, Closer, Main] = Some ExitSuccess)"
proof -
  have 1: "run_schedule E c [Main, Closer, Closer, Main] (pipeline_init w targets)
           = Some ((pipeline_init w targets)
                     \<lparr>resc_closed := True, closer := CDone, mainpc := MReturned\<rparr>)"
    for targets
    using assms by (simp add: step_def pipeline_init_def)
  have 2: "workers s = [] \<and> outcomes s = [] \<and> stderr s = [] \<and> dirs s = targets \<and>
            world s = w \<and> \<not> panicked s \<and> length sch \<le> 7"
    if run: "run_schedule E c sch (pipeline_init w targets) = Some s" for sch s
  proof -
    have d: "dirs s = targets" using idle_run [OF assms run] by simp
    have "pipeline_inv c s" using run by (rule pipeline_inv_run)
    then have np: "\<not> panicked s" by (auto simp: pipeline_inv_def)
    have "length sch + fuel c s \<le> 3 * length targets + 7"
      using run_schedule_fuel [OF run] assms by (simp add: fuel_init)
    moreover have "3 * length targets \<le> fuel c s"
      using d by (simp add: fuel_def)
    ultimately have "length sch \<le> 7" by simp
    with idle_run [OF assms run] np show ?thesis by simp
  qed
  have 3: "run E c w [Main, Closer, Closer, Main] = Some None \<and>
           Execute E c 0 w [Main, Closer, Closer, Main] = Some ExitSuccess"
    if "snd (os_ReadDir E w ''.'') = None"
  proof -
    from that obtain targets where "run_targets E w = Inr targets"
      by (cases "os_ReadDir E w ''.''") (simp add: run_targets_def)
    then have "run E c w [Main, Closer, Closer, Main] = Some None"
      using 1 [of targets] by (simp add: run_def del: run_schedule.simps)
    then show ?thesis by (simp add: Execute_def)
  qed
  from 1 2 3 show ?thesis by blast
qed

theorem no_workers_witness:
  "parallel \<lparr>parallel = 0\<rparr> \<le> 0 \<and> snd (os_ReadDir abc [] ''.'') = None \<and>
   run_targets abc [] = Inr [''a'', ''b'', ''c''] \<and>
   run abc \<lparr>parallel = 0\<rparr> [] [Main, Closer, Closer, Main] = Some None \<and>
   Execute abc \<lparr>parallel = 0\<rparr> 0 [] [Main, Closer, Closer, Main] = Some ExitSuccess \<and>
   outcomes (the (run_schedule abc \<lparr>parallel = 0\<rparr> [Main, Closer, Closer, Main]
                    (pipeline_init [] [''a'', ''b'', ''c'']))) = [] \<and>
   dirs (the (run_schedule abc \<lparr>parallel = 0\<rparr> [Main, Closer, Closer, Main]
                (pipeline_init [] [''a'', ''b'', ''c'']))) = [''a'', ''b'', ''c'']"
proof -
  have p: "parallel \<lparr>parallel = 0\<rparr> \<le> 0" by simp
  have r: "snd (os_ReadDir abc [] ''.'') = None" by code_simp
  have t: "run_targets abc [] = Inr [''a'', ''b'', ''c'']" by code_simp
  from no_workers [OF p, of abc "[]" "[''a'', ''b'', ''c'']"] p r t show ?thesis
    by (simp add: pipeline_init_def)
qed

section \<open>What the command returns\<close>

lemma run_targets_Inl:
  "(\<exists>e. run_targets E w = Inl e) \<longleftrightarrow> snd (os_ReadDir E w ''.'') \<noteq> None"
  by (cases "os_ReadDir E w ''.''") (auto simp: run_targets_def split: option.splits)

lemma run_result:
  assumes "run E c w sch = Some r"
  shows "r \<noteq> None \<longleftrightarrow> snd (os_ReadDir E w ''.'') \<noteq> None"
proof (cases "run_targets E w")
  case (Inl e)
  with assms have "r = Some e" by (simp add: run_def)
  moreover from Inl have "snd (os_ReadDir E w ''.'') \<noteq> None"
    using run_targets_Inl [of E w] by blast
  ultimately show ?thesis by simp
next
  case (Inr targets)
  with assms have "r = None"
    by (auto simp: run_def split: option.splits if_splits)
  moreover from Inr have "\<not> snd (os_ReadDir E w ''.'') \<noteq> None"
    using run_targets_Inl [of E w] by auto
  ultimately show ?thesis by simp
qed

lemma run_returns: "\<exists>sch r. run E c w sch = Some r"
proof (cases "run_targets E w")
  case (Inl e)
  then have "run E c w [] = Some (Some e)" by (simp add: run_def)
  then show ?thesis by blast
next
  case (Inr targets)
  obtain sch s where "run_schedule E c sch (pipeline_init w targets) = Some s"
    and "mainpc s = MReturned"
    using completion [OF pipeline_inv_init [of c w targets], of E] by blast
  with Inr have "run E c w sch = Some None" by (simp add: run_def)
  then show ?thesis by blast
qed

text \<open>
  C5, as the code has it. \<^verbatim>\<open>run\<close> always can return, and what it returns is an
  error exactly when the base directory cannot be read: the results of the targets
  play no part. \<^verbatim>\<open>Execute\<close> turns an error of \<^verbatim>\<open>run\<close> into the exit status
  \<^verbatim>\<open>ExitFailure\<close> and \<^verbatim>\<open>nil\<close> into \<^verbatim>\<open>ExitSuccess\<close>, provided that no argument is
  left over; with an argument left over it exits with \<^verbatim>\<open>ExitUsageError\<close> without
  calling \<^verbatim>\<open>run\<close>.
\<close>

theorem Execute_status:
  assumes "Execute E c NArg w sch = Some st"
  shows "(NArg = 0 \<longrightarrow>
            (st \<noteq> ExitSuccess \<longleftrightarrow> snd (os_ReadDir E w ''.'') \<noteq> None) \<and>
            (st = ExitFailure \<longleftrightarrow> snd (os_ReadDir E w ''.'') \<noteq> None) \<and>
            (\<exists>r. run E c w sch = Some r \<and>
                 (r \<noteq> None \<longleftrightarrow> snd (os_ReadDir E w ''.'') \<noteq> None))) \<and>
         (0 < NArg \<longrightarrow> st = ExitUsageError) \<and>
         (\<exists>sch' r. run E c w sch' = Some r)"
proof -
  have 1: "(st \<noteq> ExitSuccess \<longleftrightarrow> snd (os_ReadDir E w ''.'') \<noteq> None) \<and>
           (st = ExitFailure \<longleftrightarrow> snd (os_ReadDir E w ''.'') \<noteq> None) \<and>
           (\<exists>r. run E c w sch = Some r \<and>
                (r \<noteq> None \<longleftrightarrow> snd (os_ReadDir E w ''.'') \<noteq> None))"
    if "NArg = 0"
  proof -
    from assms that obtain r where r: "run E c w sch = Some r"
      and st: "st = (case r of Some e \<Rightarrow> ExitFailure | None \<Rightarrow> ExitSuccess)"
      by (auto simp: Execute_def split: option.splits)
    from run_result [OF r] st r show ?thesis
      by (cases r) auto
  qed
  have 2: "0 < NArg \<longrightarrow> st = ExitUsageError"
    using assms by (auto simp: Execute_def)
  from 1 2 run_returns [of E c w] show ?thesis by blast
qed

theorem Execute_status_witness:
  "Execute abc two_workers 0 [] abc_schedule = Some ExitSuccess \<and>
   snd (os_ReadDir abc [] ''.'') = None \<and>
   run abc two_workers [] abc_schedule = Some None \<and>
   err (snd (outcomes abc_final ! 0)) = Some ''no git dir found'' \<and>
   Execute read_fails two_workers 0 [] [] = Some ExitFailure \<and>
   snd (os_ReadDir read_fails [] ''.'') = Some ''open .: permission denied'' \<and>
   run read_fails two_workers [] [] = Some (Some ''sync: read .: open .: permission denied'')"
proof -
  have a: "Execute abc two_workers 0 [] abc_schedule = Some ExitSuccess" by code_simp
  have b: "Execute read_fails two_workers 0 [] [] = Some ExitFailure" by code_simp
  have c: "err (snd (outcomes abc_final ! 0)) = Some ''no git dir found''" by code_simp
  have d: "run abc two_workers [] abc_schedule = Some None" by code_simp
  have e: "run read_fails two_workers [] []
             = Some (Some ''sync: read .: open .: permission denied'')" by code_simp
  have f: "snd (os_ReadDir read_fails [] ''.'') = Some ''open .: permission denied''"
    by code_simp
  from Execute_status [OF a] Execute_status [OF b] a b c d e f show ?thesis by simp
qed

text \<open>
  C5, as the specification has it, fails for the exit status: with an argument left
  over the command exits with a status that is not success although the base
  directory can be read.
\<close>

theorem Execute_usage_counterexample:
  "Execute abc two_workers 1 [] abc_schedule = Some ExitUsageError \<and>
   snd (os_ReadDir abc [] ''.'') = None \<and>
   \<not> ((Execute abc two_workers 1 [] abc_schedule \<noteq> Some ExitSuccess)
        = (snd (os_ReadDir abc [] ''.'') \<noteq> None))"
proof -
  have a: "Execute abc two_workers 1 [] abc_schedule = Some ExitUsageError"
    by (simp add: Execute_def)
  have b: "snd (os_ReadDir abc [] ''.'') = None" by code_simp
  from a b show ?thesis by simp
qed

section \<open>The report\<close>

lemma decimal_digits: "set (decimal n) \<subseteq> set ''0123456789''"
proof (induction n rule: decimal.induct)
  case (1 n)
  show ?case
  proof (cases "n < 10")
    case True
    then have "''0123456789'' ! n \<in> set ''0123456789''"
      by (intro nth_mem) simp
    with True show ?thesis by (subst decimal.simps) simp
  next
    case False
    have "n mod 10 < 10" by simp
    then have "''0123456789'' ! (n mod 10) \<in> set ''0123456789''"
      by (intro nth_mem) simp
    with False 1 show ?thesis by (subst decimal.simps) simp
  qed
qed

lemma count_lines_append [simp]: "count_lines (a @ b) = count_lines a + count_lines b"
  by (simp add: count_lines_def)

lemma count_lines_fmt_4d [simp]: "count_lines (fmt_4d n) = 0"
proof -
  have "CHR 0x0A \<notin> set (decimal n)"
    using decimal_digits [of n] by auto
  then have "filter (\<lambda>x. x = CHR 0x0A) (decimal n) = []"
    by (auto simp: filter_empty_conv)
  then show ?thesis
    by (simp add: count_lines_def fmt_4d_def)
qed

text \<open>
  C8, as the code has it. In every state of a run the report loop has made one call
  of \<^verbatim>\<open>Fprintln\<close> for each result received, in the order of arrival. The \<open>k\<close>-th
  call (from 0) writes the number \<open>k + 1\<close>, right-justified in four columns, a space,
  the name of the result, a colon and a space; then the text of the error if there is
  one, else the one revision when both are equal, else the old revision, an arrow and
  the new one; then a newline. What is written ends one line, and one more for every
  newline in the name and in the text that follows it.
\<close>

theorem report_lines:
  assumes "run_schedule E c sch (pipeline_init w targets) = Some s"
  shows "report_i s = length (outcomes s) \<and>
         length (stderr s) = length (outcomes s) \<and>
         (\<forall>k r. k < length (outcomes s) \<and> r = snd (outcomes s ! k) \<longrightarrow>
            stderr s ! k =
              fmt_4d (Suc k) @ '' '' @ dir r @ '': '' @
              (case err r of
                 Some e \<Rightarrow> e
               | None \<Rightarrow> if oldRef r = newRef r then newRef r
                         else oldRef r @ '' -> '' @ newRef r) @ [CHR 0x0A] \<and>
            count_lines (stderr s ! k) =
              1 + count_lines (dir r) +
              count_lines (case err r of
                 Some e \<Rightarrow> e
               | None \<Rightarrow> if oldRef r = newRef r then newRef r
                         else oldRef r @ '' -> '' @ newRef r))"
proof -
  have inv: "report_inv s" using assms by (rule report_inv_run)
  then have 1: "report_i s = length (outcomes s)"
    and 2: "length (stderr s) = length (outcomes s)"
    and 3: "\<And>k. k < length (outcomes s) \<Longrightarrow>
              stderr s ! k = Fprintln (report_msg (Suc k) (snd (outcomes s ! k)))"
    by (simp_all add: report_inv_def)
  have "stderr s ! k =
              fmt_4d (Suc k) @ '' '' @ dir r @ '': '' @
              (case err r of
                 Some e \<Rightarrow> e
               | None \<Rightarrow> if oldRef r = newRef r then newRef r
                         else oldRef r @ '' -> '' @ newRef r) @ [CHR 0x0A] \<and>
            count_lines (stderr s ! k) =
              1 + count_lines (dir r) +
              count_lines (case err r of
                 Some e \<Rightarrow> e
               | None \<Rightarrow> if oldRef r = newRef r then newRef r
                         else oldRef r @ '' -> '' @ newRef r)"
    if "k < length (outcomes s)" and "r = snd (outcomes s ! k)" for k r
  proof -
    let ?t = "case err r of
                 Some e \<Rightarrow> e
               | None \<Rightarrow> if oldRef r = newRef r then newRef r
                         else oldRef r @ '' -> '' @ newRef r"
    from 3 [OF that(1)] have "stderr s ! k = Fprintln (report_msg (Suc k) r)"
      by (simp only: that(2))
    then have e: "stderr s ! k = fmt_4d (Suc k) @ '' '' @ dir r @ '': '' @ ?t @ [CHR 0x0A]"
      by (simp add: Fprintln_def report_msg_def)
    have "count_lines (fmt_4d (Suc k) @ '' '' @ dir r @ '': '' @ ?t @ [CHR 0x0A])
            = 1 + count_lines (dir r) + count_lines ?t"
      by (simp del: append_assoc) (simp add: count_lines_def)
    with e show ?thesis by simp
  qed
  with 1 2 show ?thesis by blast
qed

theorem report_lines_witness:
  "run_schedule abc two_workers abc_schedule (pipeline_init [] [''a'', ''b'', ''c''])
     = Some abc_final \<and>
   length (stderr abc_final) = length (outcomes abc_final) \<and>
   0 < length (outcomes abc_final) \<and>
   stderr abc_final ! 0 = ''   1 b: no git dir found'' @ [CHR 0x0A] \<and>
   count_lines (stderr abc_final ! 0) = 1 \<and>
   stderr abc_final =
     [''   1 b: no git dir found'' @ [CHR 0x0A], ''   2 c: abc123'' @ [CHR 0x0A],
      ''   3 a: abc123 -> def456'' @ [CHR 0x0A]]"
proof -
  have "run_schedule abc two_workers abc_schedule (pipeline_init [] [''a'', ''b'', ''c''])
          \<noteq> None"
    by code_simp
  then have r: "run_schedule abc two_workers abc_schedule
                  (pipeline_init [] [''a'', ''b'', ''c'']) = Some abc_final"
    by (auto simp: abc_final_def)
  have l: "0 < length (outcomes abc_final)" by code_simp
  have n: "\<lparr>dir = ''b'', err = Some ''no git dir found'', oldRef = [], newRef = []\<rparr>
             = snd (outcomes abc_final ! 0)"
    by code_simp
  have f: "fmt_4d (Suc 0) = ''   1''" by code_simp
  have a: "stderr abc_final =
     [''   1 b: no git dir found'' @ [CHR 0x0A], ''   2 c: abc123'' @ [CHR 0x0A],
      ''   3 a: abc123 -> def456'' @ [CHR 0x0A]]"
    by code_simp
  from report_lines [OF r] have len: "length (stderr abc_final) = length (outcomes abc_final)"
    and "\<And>k r. k < length (outcomes abc_final) \<Longrightarrow> r = snd (outcomes abc_final ! k) \<Longrightarrow>
            stderr abc_final ! k =
              fmt_4d (Suc k) @ '' '' @ dir r @ '': '' @
              (case err r of
                 Some e \<Rightarrow> e
               | None \<Rightarrow> if oldRef r = newRef r then newRef r
                         else oldRef r @ '' -> '' @ newRef r) @ [CHR 0x0A] \<and>
            count_lines (stderr abc_final ! k) =
              1 + count_lines (dir r) +
              count_lines (case err r of
                 Some e \<Rightarrow> e
               | None \<Rightarrow> if oldRef r = newRef r then newRef r
                         else oldRef r @ '' -> '' @ newRef r)"
    by blast+
  from this(2) [OF l n] f
  have "stderr abc_final ! 0 = ''   1 b: no git dir found'' @ [CHR 0x0A]"
    and "count_lines (stderr abc_final ! 0) = 1"
    by (simp_all add: count_lines_def)
  with r len l a show ?thesis by simp
qed

text \<open>
  C8, as the specification has it, fails: when the merge fails, the text of the error
  has two newlines of its own, and the one result of the run is reported on three
  lines, the last of them empty.
\<close>

theorem report_one_line_counterexample:
  "length (outcomes merge_final) = 1 \<and>
   stderr merge_final =
     [''   1 c: merge: exit status 128'' @ [CHR 0x0A] @ ''fatal: it failed'' @ [CHR 0x0A]
      @ [CHR 0x0A]] \<and>
   count_lines (concat (stderr merge_final)) = 3 \<and>
   count_lines (concat (stderr merge_final)) \<noteq> length (outcomes merge_final)"
proof -
  have 1: "length (outcomes merge_final) = 1" by code_simp
  have 2: "stderr merge_final =
     [''   1 c: merge: exit status 128'' @ [CHR 0x0A] @ ''fatal: it failed'' @ [CHR 0x0A]
      @ [CHR 0x0A]]" by code_simp
  have 3: "count_lines (concat (stderr merge_final)) = 3" by code_simp
  from 1 2 3 show ?thesis by simp
qed

section \<open>A directory without a checkout\<close>

lemma resolve_wd_default:
  assumes "os_Stat E w (filepath_Join [filepath_Join [d, ''default''], ''.git'']) = None"
  shows "resolve_wd E w d = Some (filepath_Join [d, ''default''])"
  using assms by (simp add: resolve_wd_def)

lemma resolve_wd_self:
  assumes "os_Stat E w (filepath_Join [filepath_Join [d, ''default''], ''.git'']) \<noteq> None"
    and "os_Stat E w (filepath_Join [d, ''.git'']) = None"
  shows "resolve_wd E w d = Some d"
  using assms by (auto simp: resolve_wd_def)

text \<open>In a system in which the directory has no checkout, whatever the world, every
  result reported for it is the one for a directory without a checkout.\<close>

lemma nogit_outcomes:
  assumes nogit: "\<And>w. resolve_wd E w d = None"
    and run: "run_schedule E c sch (pipeline_init w0 targets) = Some s"
    and "(d, r) \<in> set (outcomes s)"
  shows "r = nogit_result d"
proof -
  have "origin_inv (\<lambda>w. True) (\<lambda>d' r. d' = d \<longrightarrow> r = nogit_result d) s"
    using run
  proof (intro origin_inv_run [of _ E])
    fix w d'
    show "True \<and> (d' = d \<longrightarrow> fst (syncRepo E w d') = nogit_result d)"
      using syncRepo_nogit [OF nogit, of w] by simp
  qed simp_all
  with assms(3) show ?thesis by (auto simp: origin_inv_def)
qed

text \<open>
  C7. When neither \<^verbatim>\<open>default/.git\<close> under the directory nor \<^verbatim>\<open>.git\<close>
  in it exists, \<^verbatim>\<open>syncRepo\<close> runs no command, leaves the world as it is and returns
  the error \<^verbatim>\<open>no git dir found\<close>. When the first exists, every command runs in the
  subdirectory \<^verbatim>\<open>default\<close>; when only the second exists, every command runs in the
  directory itself. In the pipeline, if the directory has no checkout in any world,
  then in every run, with any number of workers, any result reported for it is that
  error, and when a run with at least one worker has come to its end, that result has
  been reported for it if it is a target.
\<close>

theorem no_checkout:
  "(os_Stat E w (filepath_Join [filepath_Join [d, ''default''], ''.git'']) \<noteq> None \<and>
    os_Stat E w (filepath_Join [d, ''.git'']) \<noteq> None \<longrightarrow>
      syncRepo E w d =
        (\<lparr>dir = filepath_Base d, err = Some ''no git dir found'', oldRef = [], newRef = []\<rparr>,
         w) \<and>
      syncRepo_trace E w d = []) \<and>
   (os_Stat E w (filepath_Join [filepath_Join [d, ''default''], ''.git'']) = None \<longrightarrow>
      syncRepo_trace E w d \<noteq> [] \<and>
      (\<forall>i\<in>set (syncRepo_trace E w d). inv_dir i = filepath_Join [d, ''default''])) \<and>
   (os_Stat E w (filepath_Join [filepath_Join [d, ''default''], ''.git'']) \<noteq> None \<and>
    os_Stat E w (filepath_Join [d, ''.git'']) = None \<longrightarrow>
      syncRepo_trace E w d \<noteq> [] \<and> (\<forall>i\<in>set (syncRepo_trace E w d). inv_dir i = d)) \<and>
   ((\<forall>w'. os_Stat E w' (filepath_Join [filepath_Join [d, ''default''], ''.git'']) \<noteq> None \<and>
          os_Stat E w' (filepath_Join [d, ''.git'']) \<noteq> None) \<longrightarrow>
      (\<forall>c sch targets s. run_schedule E c sch (pipeline_init w targets) = Some s \<longrightarrow>
         (\<forall>r. (d, r) \<in> set (outcomes s) \<longrightarrow>
            r = \<lparr>dir = filepath_Base d, err = Some ''no git dir found'', oldRef = [],
                  newRef = []\<rparr>) \<and>
         (1 \<le> parallel c \<and> mainpc s = MReturned \<and> d \<in> set targets \<longrightarrow>
            (d, \<lparr>dir = filepath_Base d, err = Some ''no git dir found'', oldRef = [],
                  newRef = []\<rparr>) \<in> set (outcomes s))))"
proof -
  have 1: "syncRepo E w d = (nogit_result d, w) \<and> syncRepo_trace E w d = []"
    if "os_Stat E w (filepath_Join [filepath_Join [d, ''default''], ''.git'']) \<noteq> None \<and>
        os_Stat E w (filepath_Join [d, ''.git'']) \<noteq> None"
  proof -
    from that have "resolve_wd E w d = None"
      using resolve_wd_None [of E w d] by blast
    then show ?thesis by (simp add: syncRepo_nogit syncRepo_trace_nogit)
  qed
  have 2: "syncRepo_trace E w d \<noteq> [] \<and>
      (\<forall>i\<in>set (syncRepo_trace E w d). inv_dir i = filepath_Join [d, ''default''])"
    if "os_Stat E w (filepath_Join [filepath_Join [d, ''default''], ''.git'']) = None"
    using trace_okD(1,4) [OF syncRepo_found(1) [OF resolve_wd_default [OF that]]] by blast
  have 3: "syncRepo_trace E w d \<noteq> [] \<and> (\<forall>i\<in>set (syncRepo_trace E w d). inv_dir i = d)"
    if "os_Stat E w (filepath_Join [filepath_Join [d, ''default''], ''.git'']) \<noteq> None \<and>
        os_Stat E w (filepath_Join [d, ''.git'']) = None"
  proof -
    from that have "resolve_wd E w d = Some d" by (simp add: resolve_wd_self)
    from trace_okD(1,4) [OF syncRepo_found(1) [OF this]] show ?thesis by blast
  qed
  have 4: "(\<forall>r. (d, r) \<in> set (outcomes s) \<longrightarrow> r = nogit_result d) \<and>
         (1 \<le> parallel c \<and> mainpc s = MReturned \<and> d \<in> set targets \<longrightarrow>
            (d, nogit_result d) \<in> set (outcomes s))"
    if all: "\<forall>w'. os_Stat E w' (filepath_Join [filepath_Join [d, ''default''], ''.git''])
                     \<noteq> None \<and>
                   os_Stat E w' (filepath_Join [d, ''.git'']) \<noteq> None"
      and run: "run_schedule E c sch (pipeline_init w targets) = Some s"
    for c sch targets s
  proof -
    from all have nogit: "\<And>w'. resolve_wd E w' d = None"
      using resolve_wd_None [of E _ d] by blast
    have a: "r = nogit_result d" if "(d, r) \<in> set (outcomes s)" for r
      using nogit run that by (rule nogit_outcomes)
    have "(d, nogit_result d) \<in> set (outcomes s)"
      if p: "1 \<le> parallel c" and m: "mainpc s = MReturned" and d: "d \<in> set targets"
    proof -
      have "mset (map fst (outcomes s)) = mset targets"
        using pipeline_inv_run [OF run] targets_inv_run [OF run] m p
        by (rule returned_all_reported)
      then have "set (map fst (outcomes s)) = set targets"
        by (rule mset_eq_setD)
      with d obtain r where r: "(d, r) \<in> set (outcomes s)" by force
      with a [OF r] show ?thesis by simp
    qed
    with a show ?thesis by blast
  qed
  from 1 2 3 4 show ?thesis
    unfolding nogit_result_def by blast
qed

theorem no_checkout_witness:
  "(\<forall>w'. os_Stat abc w' (filepath_Join [filepath_Join [''b'', ''default''], ''.git'']) \<noteq> None \<and>
         os_Stat abc w' (filepath_Join [''b'', ''.git'']) \<noteq> None) \<and>
   syncRepo abc [] ''b'' =
     (\<lparr>dir = ''b'', err = Some ''no git dir found'', oldRef = [], newRef = []\<rparr>, []) \<and>
   run_schedule abc two_workers abc_schedule (pipeline_init [] [''a'', ''b'', ''c''])
     = Some abc_final \<and>
   1 \<le> parallel two_workers \<and> mainpc abc_final = MReturned \<and>
   (''b'', \<lparr>dir = ''b'', err = Some ''no git dir found'', oldRef = [], newRef = []\<rparr>)
     \<in> set (outcomes abc_final) \<and>
   os_Stat abc [] (filepath_Join [filepath_Join [''a'', ''default''], ''.git'']) = None \<and>
   inv_dir ` set (syncRepo_trace abc [] ''a'') = {''a/default''} \<and>
   os_Stat abc [] (filepath_Join [''c'', ''.git'']) = None \<and>
   inv_dir ` set (syncRepo_trace abc [] ''c'') = {''c''}"
proof -
  have j: "filepath_Join [filepath_Join [''b'', ''default''], ''.git''] = ''b/default/.git''"
    "filepath_Join [''b'', ''.git''] = ''b/.git''"
    "filepath_Join [filepath_Join [''a'', ''default''], ''.git''] = ''a/default/.git''"
    "filepath_Join [''a'', ''default''] = ''a/default''"
    "filepath_Join [filepath_Join [''c'', ''default''], ''.git''] = ''c/default/.git''"
    "filepath_Join [''c'', ''.git''] = ''c/.git''"
    "filepath_Base ''b'' = ''b''"
    "filepath_Join [''a/default'', ''.git''] = ''a/default/.git''"
    "filepath_Join [''b/default'', ''.git''] = ''b/default/.git''"
    "filepath_Join [''c/default'', ''.git''] = ''c/default/.git''"
    "filepath_Join [''b'', ''default''] = ''b/default''"
    "filepath_Join [''c'', ''default''] = ''c/default''"
    by code_simp+
  have b: "\<forall>w'. os_Stat abc w' (filepath_Join [filepath_Join [''b'', ''default''], ''.git''])
                   \<noteq> None \<and>
                 os_Stat abc w' (filepath_Join [''b'', ''.git'']) \<noteq> None"
    by (simp add: j abc_def mock_def)
  have a: "os_Stat abc [] (filepath_Join [filepath_Join [''a'', ''default''], ''.git'']) = None"
    by (simp add: j abc_def mock_def)
  have c: "os_Stat abc [] (filepath_Join [filepath_Join [''c'', ''default''], ''.git''])
             \<noteq> None \<and>
           os_Stat abc [] (filepath_Join [''c'', ''.git'']) = None"
    by (simp add: j abc_def mock_def)
  have p: "1 \<le> parallel two_workers" by (simp add: two_workers_def)
  have "run_schedule abc two_workers abc_schedule (pipeline_init [] [''a'', ''b'', ''c''])
          \<noteq> None"
    by code_simp
  then have r: "run_schedule abc two_workers abc_schedule
                  (pipeline_init [] [''a'', ''b'', ''c'']) = Some abc_final"
    by (auto simp: abc_final_def)
  have m: "mainpc abc_final = MReturned" by code_simp
  from no_checkout [of abc "[]" "''b''"] b
  have 1: "syncRepo abc [] ''b'' =
     (\<lparr>dir = ''b'', err = Some ''no git dir found'', oldRef = [], newRef = []\<rparr>, [])"
    and "\<forall>c sch targets s.
           run_schedule abc c sch (pipeline_init [] targets) = Some s \<longrightarrow>
           (1 \<le> parallel c \<and> mainpc s = MReturned \<and> ''b'' \<in> set targets \<longrightarrow>
            (''b'', \<lparr>dir = ''b'', err = Some ''no git dir found'', oldRef = [],
                  newRef = []\<rparr>) \<in> set (outcomes s))"
    by (simp_all add: j)
  from this(2) r p m
  have 2: "(''b'', \<lparr>dir = ''b'', err = Some ''no git dir found'', oldRef = [], newRef = []\<rparr>)
     \<in> set (outcomes abc_final)"
    by (metis list.set_intros(1,2))
  from no_checkout [of abc "[]" "''a''"] a
  have "syncRepo_trace abc [] ''a'' \<noteq> []"
    and "\<forall>i\<in>set (syncRepo_trace abc [] ''a''). inv_dir i = ''a/default''"
    by (simp_all add: j)
  then have 3: "inv_dir ` set (syncRepo_trace abc [] ''a'') = {''a/default''}"
    by (cases "syncRepo_trace abc [] ''a''") auto
  from no_checkout [of abc "[]" "''c''"] c
  have "syncRepo_trace abc [] ''c'' \<noteq> []"
    and "\<forall>i\<in>set (syncRepo_trace abc [] ''c''). inv_dir i = ''c''"
    by simp_all
  then have 4: "inv_dir ` set (syncRepo_trace abc [] ''c'') = {''c''}"
    by (cases "syncRepo_trace abc [] ''c''") auto
  from b 1 r p m 2 a 3 c 4 show ?thesis by simp
qed

section \<open>The outcomes do not depend on the number of workers\<close>

lemma in_inflight:
  assumes "x \<in> set ws" and "d \<in> set (worker_dirs x)"
  shows "d \<in># inflight ws"
  using assms by (induction ws) (auto simp: inflight_def)

lemma in_set_update:
  assumes "x \<in> set (ws[j := y])"
  shows "x = y \<or> x \<in> set ws"
  using assms set_update_subset_insert [of ws j y] by auto

lemma in_set_update_other:
  assumes "x \<in> set (ws[j := y])" and "x \<noteq> y"
  shows "x \<in> set (ws[j := z])"
proof -
  from assms(1) obtain i where i: "i < length ws" and x: "x = ws[j := y] ! i"
    by (auto simp: in_set_conv_nth)
  with assms(2) have "i \<noteq> j" by (auto simp: nth_list_update)
  with i x have "ws[j := z] ! i = x" by simp
  with i show ?thesis by (metis length_list_update nth_mem)
qed

lemma distinct_not_in_rest:
  assumes "distinct xs" and "mset xs = add_mset a M"
  shows "a \<notin># M"
proof
  assume "a \<in># M"
  then have "1 \<le> count M a" by (simp add: Suc_le_eq)
  then have "2 \<le> count (mset xs) a" using assms(2) by simp
  moreover have "count (mset xs) a \<le> 1"
    using assms(1) by (simp add: distinct_count_atmost_1)
  ultimately show False by simp
qed

lemma targets_inv_pending:
  assumes "targets_inv targets s"
  shows "d \<in> set (dirs s) \<Longrightarrow> d \<in> set targets"
    and "x \<in> set (workers s) \<Longrightarrow> d \<in> set (worker_dirs x) \<Longrightarrow> d \<in> set targets"
proof -
  from assms
  have t: "mset (dirs s) + inflight (workers s) + mset (map fst (outcomes s)) = mset targets"
    by (simp add: targets_inv_def)
  show "d \<in> set targets" if "d \<in> set (dirs s)"
  proof -
    from that have "d \<in># mset (dirs s) + inflight (workers s) + mset (map fst (outcomes s))"
      by simp
    with t show ?thesis by (metis set_mset_mset)
  qed
  show "d \<in> set targets" if "x \<in> set (workers s)" and "d \<in> set (worker_dirs x)"
  proof -
    from that have "d \<in># inflight (workers s)" by (rule in_inflight)
    then have "d \<in># mset (dirs s) + inflight (workers s) + mset (map fst (outcomes s))"
      by simp
    with t show ?thesis by (metis set_mset_mset)
  qed
qed

text \<open>The directory a worker holds is not in \<^verbatim>\<open>dirs\<close> and not held by another
  worker, the targets being distinct.\<close>

lemma held_once:
  assumes t: "targets_inv targets s" and dist: "distinct targets"
    and j: "j < length (workers s)" and h: "worker_dirs (workers s ! j) = [d']"
  shows "d' \<notin> set (dirs s)"
    and "x \<in> set ((workers s)[j := WDone]) \<Longrightarrow> d' \<notin> set (worker_dirs x)"
proof -
  let ?M = "mset (dirs s) + inflight ((workers s)[j := WDone]) + mset (map fst (outcomes s))"
  from inflight_update [OF j, of WDone] h
  have "inflight (workers s) = add_mset d' (inflight ((workers s)[j := WDone]))"
    by simp
  with t have "mset targets = add_mset d' ?M"
    by (simp add: targets_inv_def)
  with dist have n: "d' \<notin># ?M" by (rule distinct_not_in_rest)
  then show "d' \<notin> set (dirs s)" by simp
  show "d' \<notin> set (worker_dirs x)" if "x \<in> set ((workers s)[j := WDone])"
  proof
    assume "d' \<in> set (worker_dirs x)"
    with that have "d' \<in># inflight ((workers s)[j := WDone])" by (rule in_inflight)
    with n show False by simp
  qed
qed

lemma view_inv_init: "view_inv E view w0 (pipeline_init w0 targets)"
  by (simp add: view_inv_def pipeline_init_def)

lemma view_inv_step:
  assumes ind: "independent E view targets"
    and t: "targets_inv targets s"
    and inv: "view_inv E view w0 s"
    and st: "step E c a s = Some s'"
  shows "view_inv E view w0 s'"
proof -
  from inv have vd: "\<And>d. d \<in> set (dirs s) \<Longrightarrow> view d (world s) = view d w0"
    and vr: "\<And>d. WRun d \<in> set (workers s) \<Longrightarrow> view d (world s) = view d w0"
    and vs: "\<And>d r. WSend d r \<in> set (workers s) \<Longrightarrow> r = fst (syncRepo E w0 d)"
    and vo: "\<And>d r. (d, r) \<in> set (outcomes s) \<Longrightarrow> r = fst (syncRepo E w0 d)"
    by (auto simp: view_inv_def)
  from st show ?thesis
  proof (cases rule: step_cases)
    case (spawn i)
    with vd vr vs vo show ?thesis by (auto simp: view_inv_def)
  next
    case (start_closer i)
    with vd vr vs vo show ?thesis by (auto simp: view_inv_def)
  next
    case return
    with vd vr vs vo show ?thesis by (auto simp: view_inv_def)
  next
    case (recv j d ds)
    have "view x (world s) = view x w0" if "WRun x \<in> set ((workers s)[j := WRun d])" for x
      using in_set_update [OF that] vr [of x] vd [of d] recv by auto
    moreover have "r = fst (syncRepo E w0 x)"
      if "WSend x r \<in> set ((workers s)[j := WRun d])" for x r
      using in_set_update [OF that] vs by auto
    ultimately show ?thesis using recv vd vo by (auto simp: view_inv_def)
  next
    case (exit_panic j)
    with vd vr vs vo show ?thesis by (auto simp: view_inv_def)
  next
    case (exit j)
    have "view x (world s) = view x w0" if "WRun x \<in> set ((workers s)[j := WDone])" for x
      using in_set_update [OF that] vr by auto
    moreover have "r = fst (syncRepo E w0 x)"
      if "WSend x r \<in> set ((workers s)[j := WDone])" for x r
      using in_set_update [OF that] vs by auto
    ultimately show ?thesis using exit vd vo by (auto simp: view_inv_def)
  next
    case (sync j d')
    let ?r = "fst (syncRepo E (world s) d')" and ?w = "snd (syncRepo E (world s) d')"
    from sync have mem: "WRun d' \<in> set (workers s)" by (metis nth_mem)
    then have d't: "d' \<in> set targets"
      using targets_inv_pending(2) [OF t, of "WRun d'" d'] by simp
    from ind have dist: "distinct targets"
      and dep: "\<And>d w w'. d \<in> set targets \<Longrightarrow> view d w = view d w' \<Longrightarrow>
                  fst (syncRepo E w d) = fst (syncRepo E w' d)"
      and oth: "\<And>d d' w. d \<in> set targets \<Longrightarrow> d' \<in> set targets \<Longrightarrow> d \<noteq> d' \<Longrightarrow>
                  view d (snd (syncRepo E w d')) = view d w"
      unfolding independent_def by blast+
    have h: "worker_dirs (workers s ! j) = [d']" using sync by simp
    note once = held_once [OF t dist \<open>j < length (workers s)\<close> h]
    have r: "?r = fst (syncRepo E w0 d')"
      using dep [OF d't vr [OF mem]] .
    have 1: "view d ?w = view d w0" if "d \<in> set (dirs s)" for d
    proof -
      from that once(1) have "d \<noteq> d'" by auto
      moreover from that have "d \<in> set targets" by (rule targets_inv_pending(1) [OF t])
      ultimately have "view d ?w = view d (world s)" using d't oth by blast
      with vd [OF that] show ?thesis by simp
    qed
    have 2: "view d ?w = view d w0" if "WRun d \<in> set ((workers s)[j := WSend d' ?r])" for d
    proof -
      from that have "WRun d \<in> set ((workers s)[j := WDone])"
        by (rule in_set_update_other) simp
      from once(2) [OF this] have "d \<noteq> d'" by auto
      from in_set_update [OF that] have m: "WRun d \<in> set (workers s)" by simp
      then have "d \<in> set targets"
        using targets_inv_pending(2) [OF t, of "WRun d" d] by simp
      with \<open>d \<noteq> d'\<close> have "view d ?w = view d (world s)" using d't oth by blast
      with vr [OF m] show ?thesis by simp
    qed
    have 3: "x = fst (syncRepo E w0 d)"
      if "WSend d x \<in> set ((workers s)[j := WSend d' ?r])" for d x
      using in_set_update [OF that] vs r by auto
    from sync 1 2 3 vo show ?thesis by (auto simp: view_inv_def)
  next
    case (send_panic j d res)
    with vd vr vs vo show ?thesis by (auto simp: view_inv_def)
  next
    case (deliver j d res)
    then have "WSend d res \<in> set (workers s)" by (metis nth_mem)
    then have "res = fst (syncRepo E w0 d)" by (rule vs)
    moreover have "view x (world s) = view x w0"
      if "WRun x \<in> set ((workers s)[j := WRecv])" for x
      using in_set_update [OF that] vr by auto
    moreover have "r = fst (syncRepo E w0 x)"
      if "WSend x r \<in> set ((workers s)[j := WRecv])" for x r
      using in_set_update [OF that] vs by auto
    ultimately show ?thesis using deliver vd vo by (auto simp: view_inv_def)
  next
    case wait
    with vd vr vs vo show ?thesis by (auto simp: view_inv_def)
  next
    case close_panic
    with vd vr vs vo show ?thesis by (auto simp: view_inv_def)
  next
    case close
    with vd vr vs vo show ?thesis by (auto simp: view_inv_def)
  qed
qed

lemma view_inv_run:
  assumes ind: "independent E view targets"
    and run: "run_schedule E c sch (pipeline_init w0 targets) = Some s"
  shows "view_inv E view w0 s"
proof -
  let ?P = "\<lambda>s. targets_inv targets s \<and> view_inv E view w0 s"
  have 0: "?P (pipeline_init w0 targets)"
    by (simp add: targets_inv_init view_inv_init)
  have 1: "?P s'" if "?P s" and st: "step E c a s = Some s'" for a s s'
  proof -
    from that have t: "targets_inv targets s" and v: "view_inv E view w0 s" by simp_all
    have "targets_inv targets s'" using t st by (rule targets_inv_step)
    moreover have "view_inv E view w0 s'" using ind t v st by (rule view_inv_step)
    ultimately show ?thesis by simp
  qed
  from run_schedule_invariant [of ?P, OF 0 1 run] show ?thesis by simp
qed

text \<open>At the end of a run the outcomes are those of \<^verbatim>\<open>syncRepo\<close> in the first
  world, one for each target.\<close>

lemma outcomes_determined:
  assumes ind: "independent E view targets"
    and p: "1 \<le> parallel c"
    and run: "run_schedule E c sch (pipeline_init w0 targets) = Some s"
    and r: "mainpc s = MReturned"
  shows "mset (outcomes s) = mset (map (\<lambda>d. (d, fst (syncRepo E w0 d))) targets)"
proof -
  have "view_inv E view w0 s" using ind run by (rule view_inv_run)
  then have "\<forall>x\<in>set (outcomes s). x = (fst x, fst (syncRepo E w0 (fst x)))"
    by (auto simp: view_inv_def)
  then have "map (\<lambda>x. (fst x, fst (syncRepo E w0 (fst x)))) (outcomes s) = outcomes s"
    by (simp add: map_idI)
  then have "outcomes s = map (\<lambda>d. (d, fst (syncRepo E w0 d))) (map fst (outcomes s))"
    by (simp add: comp_def)
  then have "mset (outcomes s)
               = image_mset (\<lambda>d. (d, fst (syncRepo E w0 d))) (mset (map fst (outcomes s)))"
    by (metis mset_map)
  moreover have "mset (map fst (outcomes s)) = mset targets"
    using pipeline_inv_run [OF run] targets_inv_run [OF run] r p
    by (rule returned_all_reported)
  ultimately show ?thesis by simp
qed

text \<open>
  C6. For targets that do not interfere, two runs from the same world that have come
  to their ends, each with at least one worker, have the same outcomes, each as often:
  those of \<^verbatim>\<open>syncRepo\<close> for each target in the world the runs started in. The
  numbers of workers and the orders of the steps of the two runs are arbitrary.
\<close>

theorem outcomes_independent_of_parallel:
  assumes "independent E view targets"
    and "1 \<le> parallel c1" and "1 \<le> parallel c2"
    and "run_schedule E c1 sch1 (pipeline_init w targets) = Some s1"
    and "mainpc s1 = MReturned"
    and "run_schedule E c2 sch2 (pipeline_init w targets) = Some s2"
    and "mainpc s2 = MReturned"
  shows "mset (map snd (outcomes s1)) = mset (map snd (outcomes s2)) \<and>
         set (map snd (outcomes s1)) = set (map snd (outcomes s2)) \<and>
         mset (outcomes s1) = mset (outcomes s2) \<and>
         mset (outcomes s1) = mset (map (\<lambda>d. (d, fst (syncRepo E w d))) targets)"
proof -
  have 1: "mset (outcomes s1) = mset (map (\<lambda>d. (d, fst (syncRepo E w d))) targets)"
    using assms(1,2,4,5) by (rule outcomes_determined)
  have 2: "mset (outcomes s2) = mset (map (\<lambda>d. (d, fst (syncRepo E w d))) targets)"
    using assms(1,3,6,7) by (rule outcomes_determined)
  from 1 2 have e: "mset (outcomes s1) = mset (outcomes s2)" by simp
  then have m: "mset (map snd (outcomes s1)) = mset (map snd (outcomes s2))"
    by (metis mset_map)
  then have "set (map snd (outcomes s1)) = set (map snd (outcomes s2))"
    by (rule mset_eq_setD)
  with 1 e m show ?thesis by simp
qed
text \<open>The scripted system is of this kind: what it returns for a target depends on
  whether the working directory of the target has been fast-forwarded only.\<close>

lemma abc_joins:
  "filepath_Join [''a'', ''default''] = ''a/default''"
  "filepath_Join [''b'', ''default''] = ''b/default''"
  "filepath_Join [''c'', ''default''] = ''c/default''"
  "filepath_Join [''a/default'', ''.git''] = ''a/default/.git''"
  "filepath_Join [''b/default'', ''.git''] = ''b/default/.git''"
  "filepath_Join [''c/default'', ''.git''] = ''c/default/.git''"
  "filepath_Join [''a'', ''.git''] = ''a/.git''"
  "filepath_Join [''b'', ''.git''] = ''b/.git''"
  "filepath_Join [''c'', ''.git''] = ''c/.git''"
  "filepath_Base ''a'' = ''a''" "filepath_Base ''b'' = ''b''" "filepath_Base ''c'' = ''c''"
  by code_simp+

lemma abc_trim:
  "bytes_TrimSpace (\<lambda>s. s) (''abc123'' @ [CHR 0x0A]) = ''abc123''"
  "bytes_TrimSpace (\<lambda>s. s) (''def456'' @ [CHR 0x0A]) = ''def456''"
  "path_Base (bytes_TrimSpace (\<lambda>s. s) (''origin/main'' @ [CHR 0x0A])) = ''main''"
  by code_simp+

lemma abc_a:
  "syncRepo abc w ''a'' =
     (\<lparr>dir = ''a'', err = None,
        oldRef = (if ''a/default'' \<in> set w then ''def456'' else ''abc123''),
        newRef = ''def456''\<rparr>, ''a/default'' # w)"
  using abc_trim by (simp add: syncRepo_def abc_def mock_def abc_joins)

lemma abc_b:
  "syncRepo abc w ''b'' =
     (\<lparr>dir = ''b'', err = Some ''no git dir found'', oldRef = [], newRef = []\<rparr>, w)"
  by (simp add: syncRepo_def abc_def mock_def abc_joins)

lemma abc_c:
  "syncRepo abc w ''c'' =
     (\<lparr>dir = ''c'', err = None,
        oldRef = (if ''c'' \<in> set w then ''def456'' else ''abc123''),
        newRef = (if ''c'' \<in> set w then ''def456'' else ''abc123'')\<rparr>, w)"
  using abc_trim by (simp add: syncRepo_def abc_def mock_def abc_joins)

lemma abc_independent: "independent abc abc_view [''a'', ''b'', ''c'']"
  by (simp add: independent_def abc_view_def abc_a abc_b abc_c abc_joins)

theorem outcomes_independent_of_parallel_witness:
  "independent abc abc_view [''a'', ''b'', ''c''] \<and>
   1 \<le> parallel one_worker \<and> 1 \<le> parallel two_workers \<and>
   run_schedule abc one_worker abc_schedule1 (pipeline_init [] [''a'', ''b'', ''c''])
     = Some abc_final1 \<and>
   mainpc abc_final1 = MReturned \<and>
   run_schedule abc two_workers abc_schedule (pipeline_init [] [''a'', ''b'', ''c''])
     = Some abc_final \<and>
   mainpc abc_final = MReturned \<and>
   map fst (outcomes abc_final1) = [''a'', ''b'', ''c''] \<and>
   map fst (outcomes abc_final) = [''b'', ''c'', ''a''] \<and>
   mset (map snd (outcomes abc_final1)) = mset (map snd (outcomes abc_final)) \<and>
   set (map snd (outcomes abc_final1)) = set (map snd (outcomes abc_final))"
proof -
  have p: "1 \<le> parallel one_worker" "1 \<le> parallel two_workers"
    by (simp_all add: one_worker_def two_workers_def)
  have "run_schedule abc one_worker abc_schedule1 (pipeline_init [] [''a'', ''b'', ''c''])
          \<noteq> None"
    by code_simp
  then have r1: "run_schedule abc one_worker abc_schedule1
                   (pipeline_init [] [''a'', ''b'', ''c'']) = Some abc_final1"
    by (auto simp: abc_final1_def)
  have "run_schedule abc two_workers abc_schedule (pipeline_init [] [''a'', ''b'', ''c''])
          \<noteq> None"
    by code_simp
  then have r2: "run_schedule abc two_workers abc_schedule
                   (pipeline_init [] [''a'', ''b'', ''c'']) = Some abc_final"
    by (auto simp: abc_final_def)
  have m: "mainpc abc_final1 = MReturned" "mainpc abc_final = MReturned"
    by code_simp+
  have o: "map fst (outcomes abc_final1) = [''a'', ''b'', ''c'']"
    "map fst (outcomes abc_final) = [''b'', ''c'', ''a'']"
    by code_simp+
  from outcomes_independent_of_parallel [OF abc_independent p r1 m(1) r2 m(2)]
    abc_independent p r1 r2 m o
  show ?thesis by simp
qed

end
